theory Spec2Isabelle
  imports Complex_Main
begin

section \<open>Data model (services/pipeline\_service.py)\<close>

text \<open>
  \<^verbatim>\<open>class JobStatus(str, Enum)\<close>: the five states of a generation job.
\<close>

datatype JobStatus = QUEUED | LOADING | GENERATING | COMPLETED | FAILED

text \<open>
  \<^verbatim>\<open>@dataclass class GenerationJob\<close>. Python's \<open>int\<close> is \<open>int\<close>, \<open>Optional[str]\<close> is
  \<open>string option\<close>. The three \<open>float\<close> fields are carried as reals: the only float
  arithmetic of the service is the true division \<open>(i + 1) / max_audio_frames\<close> of two
  positive ints, which is correctly rounded and therefore keeps the order and the values
  \<open>0.0\<close> and \<open>1.0\<close> that the properties below speak about. Timestamps are readings of a
  clock, modelled as natural numbers.
\<close>

type_synonym job_id = string

record GenerationJob =
  job_id :: job_id
  lyrics :: string
  tags :: string
  temperature :: real
  topk :: int
  cfg_scale :: real
  max_audio_length_ms :: int
  status :: JobStatus
  progress :: real
  current_frame :: int
  total_frames :: int
  output_path :: "string option"
  error :: "string option"
  created_at :: nat
  started_at :: "nat option"
  completed_at :: "nat option"

text \<open>
  A progress callback is a Python closure. The model keeps an identity for it (closures
  are compared by identity) and what calling it does as far as the service can tell:
  it returns, or it raises an exception with some message.
\<close>

record callback =
  cb_id :: nat
  cb_call :: "GenerationJob \<Rightarrow> string + unit"

text \<open>
  An observation log, kept by the model only (the source has no such field). It records,
  in program order, what the executor makes visible outside itself:
  \<^item> \<open>Publish\<close>: a call of \<^verbatim>\<open>_notify_progress\<close> that found the job, with the job's fields at
    that moment;
  \<^item> \<open>Invoked\<close>: one registered callback was called with that job; the flag says whether
    the call raised (the exception is discarded by the notifier);
  \<^item> \<open>Released\<close>: the assignment \<^verbatim>\<open>self._current_job = None\<close>.
\<close>

datatype event =
    Publish job_id GenerationJob
  | Invoked nat GenerationJob bool
  | Released

text \<open>
  \<^verbatim>\<open>class PipelineService\<close>. \<open>pipeline_loaded\<close> stands for \<^verbatim>\<open>self._pipeline is not None\<close>.
  Job objects are mutable and shared by reference between the registry \<^verbatim>\<open>_jobs\<close>, the
  executor and the callbacks; the registry is the store here, and a job object is
  addressed by its id, the only way the source ever reaches one.
\<close>

record PipelineService =
  pipeline_loaded :: bool
  jobs :: "job_id \<rightharpoonup> GenerationJob"
  current_job :: "job_id option"
  progress_callbacks :: "job_id \<rightharpoonup> callback list"
  events :: "event list"

definition init_service :: PipelineService where
  "init_service =
     \<lparr>pipeline_loaded = False, jobs = Map.empty, current_job = None,
      progress_callbacks = Map.empty, events = []\<rparr>"

text \<open>Exceptions that leave a function of the service or of the router.\<close>

datatype exn =
    HTTPException nat string
  | RuntimeError string
  | EngineError string

text \<open>
  Everything the executor calls that is not in this repository: the HeartMuLa pipeline
  (\<^verbatim>\<open>from_pretrained\<close>, \<^verbatim>\<open>_sanitize_parameters\<close>, \<^verbatim>\<open>preprocess\<close>, \<^verbatim>\<open>setup_caches\<close>,
  \<^verbatim>\<open>generate_frame\<close>, \<^verbatim>\<open>detokenize\<close>), \<^verbatim>\<open>torchaudio.save\<close> and the clock. Each call either
  returns (\<open>Inr\<close>) or raises an exception whose \<^verbatim>\<open>str(e)\<close> is the given message (\<open>Inl\<close>).
  \<open>generate_frame i\<close> is the call made in iteration \<open>i\<close> of the loop; it returns row 0 of
  the token tensor. \<open>sanitize_parameters\<close> returns the entry
  \<^verbatim>\<open>forward_kwargs["max_audio_length_ms"]\<close>, the only one the loop's length depends on.
\<close>

record engine =
  from_pretrained :: "string + unit"
  sanitize_parameters :: "real \<Rightarrow> int \<Rightarrow> real \<Rightarrow> int \<Rightarrow> string + int"
  preprocess :: "string \<Rightarrow> string \<Rightarrow> string + unit"
  first_frame :: "string + int list"
  generate_frame :: "nat \<Rightarrow> string + int list"
  audio_eos_id :: int
  detokenize :: "int list list \<Rightarrow> string + unit"
  torchaudio_save :: "string \<Rightarrow> string + unit"
  now_started :: nat
  now_completed :: nat

section \<open>Job registry and progress notifier\<close>

text \<open>
  \<^verbatim>\<open>create_job\<close>: the fresh \<^verbatim>\<open>uuid4\<close> string and the reading of the clock are inputs.
\<close>

definition create_job ::
  "job_id \<Rightarrow> nat \<Rightarrow> string \<Rightarrow> string \<Rightarrow> real \<Rightarrow> int \<Rightarrow> real \<Rightarrow> int \<Rightarrow> PipelineService
     \<Rightarrow> GenerationJob \<times> PipelineService" where
  "create_job jid t ly tg temp tk cfg ms s =
     (let job = \<lparr>job_id = jid, lyrics = ly, tags = tg, temperature = temp, topk = tk,
                  cfg_scale = cfg, max_audio_length_ms = ms, status = QUEUED, progress = 0,
                  current_frame = 0, total_frames = 0, output_path = None, error = None,
                  created_at = t, started_at = None, completed_at = None\<rparr>
      in (job, s\<lparr>jobs := (jobs s)(jid \<mapsto> job)\<rparr>))"

definition get_job :: "PipelineService \<Rightarrow> job_id \<Rightarrow> GenerationJob option" where
  "get_job s jid = jobs s jid"

text \<open>A field assignment \<^verbatim>\<open>job.x = v\<close> on the job object with the given id.\<close>

definition update_job ::
  "job_id \<Rightarrow> (GenerationJob \<Rightarrow> GenerationJob) \<Rightarrow> PipelineService \<Rightarrow> PipelineService" where
  "update_job jid f s = s\<lparr>jobs := (jobs s)(jid := map_option f (jobs s jid))\<rparr>"

definition register_progress_callback ::
  "job_id \<Rightarrow> callback \<Rightarrow> PipelineService \<Rightarrow> PipelineService" where
  "register_progress_callback jid cb s =
     s\<lparr>progress_callbacks :=
         (progress_callbacks s)(jid \<mapsto>
            (case progress_callbacks s jid of None \<Rightarrow> [] | Some cbs \<Rightarrow> cbs) @ [cb])\<rparr>"

text \<open>\<^verbatim>\<open>self._progress_callbacks.pop(job_id, None)\<close>: "Remove all callbacks for a job."\<close>

definition unregister_progress_callbacks :: "job_id \<Rightarrow> PipelineService \<Rightarrow> PipelineService" where
  "unregister_progress_callbacks jid s =
     s\<lparr>progress_callbacks := (progress_callbacks s)(jid := None)\<rparr>"

definition subscriber_count :: "PipelineService \<Rightarrow> job_id \<Rightarrow> nat" where
  "subscriber_count s jid =
     (case progress_callbacks s jid of None \<Rightarrow> 0 | Some cbs \<Rightarrow> length cbs)"

text \<open>
  The loop of \<^verbatim>\<open>_notify_progress\<close>: every callback is called inside its own
  \<^verbatim>\<open>try: ... except Exception: pass\<close>.
\<close>

fun invoke_all :: "callback list \<Rightarrow> GenerationJob \<Rightarrow> event list" where
  "invoke_all [] job = []"
| "invoke_all (cb # cbs) job =
     (case cb_call cb job of
        Inl e \<Rightarrow> Invoked (cb_id cb) job True # invoke_all cbs job
      | Inr u \<Rightarrow> Invoked (cb_id cb) job False # invoke_all cbs job)"

definition notify_progress :: "job_id \<Rightarrow> PipelineService \<Rightarrow> PipelineService" where
  "notify_progress jid s =
     (case jobs s jid of
        None \<Rightarrow> s
      | Some job \<Rightarrow>
          (case progress_callbacks s jid of
             None \<Rightarrow> s\<lparr>events := events s @ [Publish jid job]\<rparr>
           | Some cbs \<Rightarrow> s\<lparr>events := events s @ Publish jid job # invoke_all cbs job\<rparr>))"

section \<open>Job executor\<close>

text \<open>
  The groups of field assignments that the executor makes on its job, each in the
  order of the source: lines 185 and 186, line 193, line 212, lines 334 and 335,
  lines 224 to 231, and lines 234 to 236.
\<close>

definition begin_loading :: "nat \<Rightarrow> GenerationJob \<Rightarrow> GenerationJob" where
  "begin_loading t j = j\<lparr>status := LOADING, started_at := Some t\<rparr>"

definition begin_generating :: "GenerationJob \<Rightarrow> GenerationJob" where
  "begin_generating j = j\<lparr>status := GENERATING\<rparr>"

definition set_total_frames :: "GenerationJob \<Rightarrow> GenerationJob" where
  "set_total_frames j = j\<lparr>total_frames := max_audio_length_ms j div 80\<rparr>"

definition advance_frame :: "nat \<Rightarrow> int \<Rightarrow> GenerationJob \<Rightarrow> GenerationJob" where
  "advance_frame i n j =
     j\<lparr>current_frame := int i + 1, progress := (real i + 1) / real_of_int n\<rparr>"

definition complete :: "nat \<Rightarrow> GenerationJob \<Rightarrow> GenerationJob" where
  "complete t j =
     j\<lparr>output_path := Some (''/output/'' @ job_id j @ ''.mp3''), status := COMPLETED,
       progress := 1, completed_at := Some t\<rparr>"

definition fail :: "string \<Rightarrow> nat \<Rightarrow> GenerationJob \<Rightarrow> GenerationJob" where
  "fail msg t j = j\<lparr>status := FAILED, error := Some msg, completed_at := Some t\<rparr>"

text \<open>
  \<^verbatim>\<open>load_pipeline\<close>: idempotent; an exception of \<^verbatim>\<open>from_pretrained\<close> is logged and
  re-raised.
\<close>

definition load_pipeline :: "engine \<Rightarrow> PipelineService \<Rightarrow> (exn + unit) \<times> PipelineService" where
  "load_pipeline en s =
     (if pipeline_loaded s then (Inr (), s)
      else (case from_pretrained en of
              Inl m \<Rightarrow> (Inl (EngineError m), s)
            | Inr u \<Rightarrow> (Inr (), s\<lparr>pipeline_loaded := True\<rparr>)))"

text \<open>\<^verbatim>\<open>torch.any(curr_token[0:1, :] >= audio_eos_id)\<close>\<close>

definition is_eos :: "engine \<Rightarrow> int list \<Rightarrow> bool" where
  "is_eos en tok = list_ex (\<lambda>t. audio_eos_id en \<le> t) tok"

text \<open>
  The loop \<^verbatim>\<open>for i in range(max_audio_frames)\<close> of \<^verbatim>\<open>_forward_with_progress\<close>, from
  iteration \<open>i\<close> on, with the frames collected so far. \<open>range\<close> of a number that is not
  positive is empty.
\<close>

function forward_loop ::
  "engine \<Rightarrow> job_id \<Rightarrow> int \<Rightarrow> nat \<Rightarrow> int list list \<Rightarrow> PipelineService
     \<Rightarrow> (exn + int list list) \<times> PipelineService" where
  "forward_loop en jid n i frames s =
     (if int i < n then
        (case generate_frame en i of
           Inl m \<Rightarrow> (Inl (EngineError m), s)
         | Inr tok \<Rightarrow>
             if is_eos en tok then (Inr frames, s)
             else forward_loop en jid n (Suc i) (frames @ [tok])
                    (notify_progress jid (update_job jid (advance_frame i n) s)))
      else (Inr frames, s))"
  by pat_completeness auto
termination
  by (relation "measure (\<lambda>(en, jid, n, i, frames, s). nat n - i)") auto

declare forward_loop.simps [simp del]

text \<open>
  \<^verbatim>\<open>_forward_with_progress\<close>: the first frame (with the set-up before it), the loop over
  \<^verbatim>\<open>max_audio_length_ms // 80\<close> frames, the decoding of the collected frames.
\<close>

definition forward_with_progress ::
  "engine \<Rightarrow> job_id \<Rightarrow> int \<Rightarrow> PipelineService \<Rightarrow> (exn + unit) \<times> PipelineService" where
  "forward_with_progress en jid fwd_ms s =
     (case first_frame en of
        Inl m \<Rightarrow> (Inl (EngineError m), s)
      | Inr tok0 \<Rightarrow>
          (case forward_loop en jid (fwd_ms div 80) 0 [tok0] s of
             (Inl e, s') \<Rightarrow> (Inl e, s')
           | (Inr frames, s') \<Rightarrow>
               (case detokenize en frames of
                  Inl m \<Rightarrow> (Inl (EngineError m), s')
                | Inr wav \<Rightarrow> (Inr (), s'))))"

text \<open>
  The body of the \<^verbatim>\<open>try\<close> block of \<^verbatim>\<open>_generate_with_progress\<close> (lines 198 to 231). The
  request parameters are read from the job object handed to the executor (they are never
  assigned after construction); the mutable fields are written to the object in the
  store. The file is saved under the name \<^verbatim>\<open>{job_id}.mp3\<close> in the output directory.
\<close>

definition generation_body ::
  "engine \<Rightarrow> GenerationJob \<Rightarrow> PipelineService \<Rightarrow> (exn + unit) \<times> PipelineService" where
  "generation_body en job s =
     (case sanitize_parameters en (cfg_scale job) (max_audio_length_ms job)
             (temperature job) (topk job) of
        Inl m \<Rightarrow> (Inl (EngineError m), s)
      | Inr fwd_ms \<Rightarrow>
          (case preprocess en (lyrics job) (tags job) of
             Inl m \<Rightarrow> (Inl (EngineError m), s)
           | Inr model_inputs \<Rightarrow>
               (case forward_with_progress en (job_id job) fwd_ms
                       (update_job (job_id job) set_total_frames s) of
                  (Inl e, s') \<Rightarrow> (Inl e, s')
                | (Inr wav, s') \<Rightarrow>
                    (case torchaudio_save en (job_id job @ ''.mp3'') of
                       Inl m \<Rightarrow> (Inl (EngineError m), s')
                     | Inr u \<Rightarrow>
                         (Inr (), update_job (job_id job) (complete (now_completed en)) s')))))"

text \<open>\<^verbatim>\<open>str(e)\<close> of an exception.\<close>

fun str :: "exn \<Rightarrow> string" where
  "str (HTTPException c d) = d"
| "str (RuntimeError m) = m"
| "str (EngineError m) = m"

text \<open>
  \<^verbatim>\<open>_generate_with_progress\<close>. The call \<^verbatim>\<open>self.load_pipeline()\<close> (line 191) stands before
  the \<^verbatim>\<open>try\<close> (line 197): an exception of the warm-up leaves the function at once.
\<close>

definition generate_with_progress ::
  "engine \<Rightarrow> GenerationJob \<Rightarrow> PipelineService \<Rightarrow> (exn + unit) \<times> PipelineService" where
  "generate_with_progress en job s0 =
     (let jid = job_id job;
          s1 = notify_progress jid (update_job jid (begin_loading (now_started en)) s0)
      in (case load_pipeline en s1 of
            (Inl e, s2) \<Rightarrow> (Inl e, s2)
          | (Inr u, s2) \<Rightarrow>
              (let s3 = notify_progress jid (update_job jid begin_generating s2);
                   s4 = (case generation_body en job s3 of
                           (Inl e, s) \<Rightarrow> update_job jid (fail (str e) (now_completed en)) s
                         | (Inr v, s) \<Rightarrow> s);
                   s5 = notify_progress jid s4
               in (Inr (), s5\<lparr>current_job := None, events := events s5 @ [Released]\<rparr>))))"

section \<open>Admission gate\<close>

text \<open>
  The beginning of \<^verbatim>\<open>PipelineService.start_generation\<close> (lines 349 to 352), up to its
  only \<^verbatim>\<open>await\<close>: the check of the slot and the assignment of the slot. This is the one
  place where the slot is taken.
\<close>

definition acquire_slot ::
  "GenerationJob \<Rightarrow> PipelineService \<Rightarrow> (exn + unit) \<times> PipelineService" where
  "acquire_slot job s =
     (if current_job s \<noteq> None then (Inl (RuntimeError ''A generation is already in progress''), s)
      else (Inr (), s\<lparr>current_job := Some (job_id job)\<rparr>))"

text \<open>
  \<^verbatim>\<open>PipelineService.start_generation\<close>, the background task of a creation request: the
  slot is taken, then the executor runs; \<^verbatim>\<open>await loop.run_in_executor(...)\<close> hands an
  exception of the executor on.
\<close>

definition start_generation ::
  "engine \<Rightarrow> GenerationJob \<Rightarrow> PipelineService \<Rightarrow> (exn + unit) \<times> PipelineService" where
  "start_generation en job s =
     (case acquire_slot job s of
        (Inl e, s') \<Rightarrow> (Inl e, s')
      | (Inr u, s') \<Rightarrow> generate_with_progress en job s')"

section \<open>Router (routers/generation.py)\<close>

record GenerationRequest =
  rq_lyrics :: string
  rq_tags :: string
  rq_temperature :: real
  rq_topk :: int
  rq_cfg_scale :: real
  rq_max_audio_length_ms :: int

record GenerationResponse =
  rs_job_id :: string
  rs_status :: string
  rs_message :: string

fun status_value :: "JobStatus \<Rightarrow> string" where
  "status_value QUEUED = ''queued''"
| "status_value LOADING = ''loading''"
| "status_value GENERATING = ''generating''"
| "status_value COMPLETED = ''completed''"
| "status_value FAILED = ''failed''"

text \<open>
  The handler of \<^verbatim>\<open>POST /start\<close>. It is entered with a request that the framework has
  already validated against the \<^verbatim>\<open>Field\<close> bounds. On success it returns the response
  and the job for which \<^verbatim>\<open>pipeline_service.start_generation\<close> was added as a background
  task.
\<close>

definition route_start_generation ::
  "GenerationRequest \<Rightarrow> job_id \<Rightarrow> nat \<Rightarrow> PipelineService
     \<Rightarrow> (exn + GenerationResponse \<times> GenerationJob) \<times> PipelineService" where
  "route_start_generation request uuid t s =
     (if current_job s \<noteq> None then
        (Inl (HTTPException 429
                ''A generation is already in progress. Please wait for it to complete.''), s)
      else
        (case create_job uuid t (rq_lyrics request) (rq_tags request) (rq_temperature request)
                (rq_topk request) (rq_cfg_scale request) (rq_max_audio_length_ms request) s of
           (job, s') \<Rightarrow>
             (Inr (\<lparr>rs_job_id = job_id job, rs_status = status_value (status job),
                     rs_message = ''Generation started. Use /progress/{job_id} to track progress.''\<rparr>,
                   job), s')))"

text \<open>\<^verbatim>\<open>_job_to_dict\<close>\<close>

record job_dict =
  d_job_id :: string
  d_status :: string
  d_progress :: real
  d_current_frame :: int
  d_total_frames :: int
  d_output_path :: "string option"
  d_error :: "string option"

definition job_to_dict :: "GenerationJob \<Rightarrow> job_dict" where
  "job_to_dict job =
     \<lparr>d_job_id = job_id job, d_status = status_value (status job), d_progress = progress job,
      d_current_frame = current_frame job, d_total_frames = total_frames job,
      d_output_path = output_path job, d_error = error job\<rparr>"

text \<open>
  What a stream sends: a \<^verbatim>\<open>data:\<close> record with the job's dictionary, or the comment
  \<^verbatim>\<open>: keepalive\<close>.
\<close>

datatype sse = Data job_dict | Keepalive

text \<open>
  What one turn of the wait loop meets: \<^verbatim>\<open>queue.get()\<close> returned a job (with the fields
  it has when the generator goes on), or the 30 seconds ran out and \<^verbatim>\<open>get_job\<close> then
  returned the given value.
\<close>

datatype wait_result = Update GenerationJob | Timeout "GenerationJob option"

definition terminal :: "JobStatus \<Rightarrow> bool" where
  "terminal st = (st = COMPLETED \<or> st = FAILED)"

text \<open>
  The loop \<^verbatim>\<open>while True\<close> of \<^verbatim>\<open>event_generator\<close> along the turns it meets. The flag says
  whether the loop ended by a \<^verbatim>\<open>break\<close>; when the turns run out first, the client has gone
  and the generator is closed at the \<^verbatim>\<open>await\<close>.
\<close>

fun wait_loop :: "wait_result list \<Rightarrow> sse list \<times> bool" where
  "wait_loop [] = ([], False)"
| "wait_loop (Update j # rest) =
     (if terminal (status j) then ([Data (job_to_dict j)], True)
      else (case wait_loop rest of (evs, b) \<Rightarrow> (Data (job_to_dict j) # evs, b)))"
| "wait_loop (Timeout None # rest) = ([Keepalive], True)"
| "wait_loop (Timeout (Some j) # rest) =
     (if terminal (status j) then ([Keepalive, Data (job_to_dict j)], True)
      else (case wait_loop rest of (evs, b) \<Rightarrow> (Keepalive # evs, b)))"

text \<open>
  \<^verbatim>\<open>stream_progress\<close> (\<^verbatim>\<open>GET /progress/{job_id}\<close>) with its \<^verbatim>\<open>event_generator\<close>: the
  callback \<^verbatim>\<open>on_progress\<close> of this connection (it only puts the job into an unbounded
  queue) is registered, the events are sent, and the \<^verbatim>\<open>finally\<close> clause runs
  \<^verbatim>\<open>unregister_progress_callbacks(job_id)\<close> however the body ended. The first event shows
  the job as it is at the connection. The test of line 117 reads \<^verbatim>\<open>job.status\<close> again when
  the generator goes on after that event; the status found then is an input (\<open>reread\<close>),
  as the turns of the wait loop are.
\<close>

definition on_progress :: "nat \<Rightarrow> callback" where
  "on_progress k = \<lparr>cb_id = k, cb_call = (\<lambda>j. Inr ())\<rparr>"

definition stream_progress ::
  "job_id \<Rightarrow> nat \<Rightarrow> JobStatus \<Rightarrow> wait_result list \<Rightarrow> PipelineService
     \<Rightarrow> (exn + sse list) \<times> PipelineService" where
  "stream_progress jid k reread turns s =
     (case get_job s jid of
        None \<Rightarrow> (Inl (HTTPException 404 ''Job not found''), s)
      | Some job \<Rightarrow>
          (let s1 = register_progress_callback jid (on_progress k) s;
               evs = Data (job_to_dict job) #
                       (if terminal reread then [] else fst (wait_loop turns))
           in (Inr evs, unregister_progress_callbacks jid s1)))"

section \<open>Notions used to state the properties\<close>

text \<open>What one call of \<^verbatim>\<open>_notify_progress\<close> hands to the callbacks of a job id.\<close>

definition deliveries :: "PipelineService \<Rightarrow> job_id \<Rightarrow> GenerationJob \<Rightarrow> event list" where
  "deliveries s jid job =
     (case progress_callbacks s jid of None \<Rightarrow> [] | Some cbs \<Rightarrow> invoke_all cbs job)"

text \<open>
  The number \<^verbatim>\<open>max_audio_frames\<close> of \<^verbatim>\<open>_forward_with_progress\<close> for a job: the entry of
  \<^verbatim>\<open>forward_kwargs\<close>, floor-divided by 80.
\<close>

definition body_frames :: "engine \<Rightarrow> GenerationJob \<Rightarrow> int" where
  "body_frames en job =
     (case sanitize_parameters en (cfg_scale job) (max_audio_length_ms job)
             (temperature job) (topk job) of
        Inl m \<Rightarrow> 0
      | Inr fwd_ms \<Rightarrow> fwd_ms div 80)"

text \<open>
  The end of \<^verbatim>\<open>_generate_with_progress\<close> (lines 242 and 243): the last notification,
  then the release of the slot.
\<close>

definition publish_and_release :: "job_id \<Rightarrow> PipelineService \<Rightarrow> PipelineService" where
  "publish_and_release jid s =
     (let s5 = notify_progress jid s
      in s5\<lparr>current_job := None, events := events s5 @ [Released]\<rparr>)"

text \<open>Since the log had the given content, no release has been recorded.\<close>

definition quiet :: "event list \<Rightarrow> PipelineService \<Rightarrow> bool" where
  "quiet ev0 t \<longleftrightarrow> (\<exists>new. events t = ev0 @ new \<and> Released \<notin> set new)"

text \<open>
  What the executor itself reads and writes: the loaded pipeline, the jobs and the slot.
  The callbacks and the log are left out.
\<close>

definition engine_view ::
  "PipelineService \<Rightarrow> bool \<times> (job_id \<rightharpoonup> GenerationJob) \<times> job_id option" where
  "engine_view s = (pipeline_loaded s, jobs s, current_job s)"

text \<open>A result field holds a text that is not empty.\<close>

definition non_empty :: "string option \<Rightarrow> bool" where
  "non_empty x = (case x of None \<Rightarrow> False | Some txt \<Rightarrow> txt \<noteq> [])"


text \<open>The job that an entry of the log shows, if it shows one.\<close>

fun event_job :: "event \<Rightarrow> GenerationJob option" where
  "event_job (Publish jid j) = Some j"
| "event_job (Invoked k j b) = Some j"
| "event_job Released = None"

text \<open>
  Since the log had the given content, every job shown by a new entry has the given
  property.
\<close>

definition log_all :: "(GenerationJob \<Rightarrow> bool) \<Rightarrow> event list \<Rightarrow> PipelineService \<Rightarrow> bool" where
  "log_all ok ev0 t \<longleftrightarrow>
     (\<exists>new. events t = ev0 @ new \<and> (\<forall>e\<in>set new. \<forall>j. event_job e = Some j \<longrightarrow> ok j))"

text \<open>
  The states of a job that the log shows as published, in order; and those published
  since the log had the given content.
\<close>

definition published :: "event list \<Rightarrow> GenerationJob list" where
  "published es = concat (map (\<lambda>e. case e of Publish jid j \<Rightarrow> [j] | _ \<Rightarrow> []) es)"

definition published_since :: "event list \<Rightarrow> PipelineService \<Rightarrow> GenerationJob list" where
  "published_since ev0 s = published (drop (length ev0) (events s))"

text \<open>
  What the \<open>progress\<close> of one state must be: 0 while the job is queued or loading, 1 when
  it is completed, and between the two always.
\<close>

definition progress_ok :: "GenerationJob \<Rightarrow> bool" where
  "progress_ok p \<longleftrightarrow>
     (status p = QUEUED \<or> status p = LOADING \<longrightarrow> progress p = 0) \<and>
     (status p = COMPLETED \<longrightarrow> progress p = 1) \<and> 0 \<le> progress p \<and> progress p \<le> 1"

text \<open>
  A sequence of states whose \<open>progress\<close> never decreases and stays below a bound.
\<close>

definition rising :: "GenerationJob list \<Rightarrow> real \<Rightarrow> bool" where
  "rising ps ub \<longleftrightarrow>
     sorted (map progress ps) \<and> (\<forall>p\<in>set ps. progress_ok p \<and> progress p \<le> ub)"

section \<open>Sample inputs\<close>

definition demo_request :: GenerationRequest where
  "demo_request =
     \<lparr>rq_lyrics = ''la'', rq_tags = ''piano'', rq_temperature = 1, rq_topk = 50,
      rq_cfg_scale = 3 / 2, rq_max_audio_length_ms = 80000\<rparr>"

definition demo_job :: GenerationJob where
  "demo_job = fst (create_job ''j'' 0 ''la'' ''piano'' 1 50 (3 / 2) 80000 init_service)"

text \<open>A registry whose only job has failed.\<close>

definition done_service :: PipelineService where
  "done_service =
     init_service\<lparr>jobs := [''j'' \<mapsto> demo_job\<lparr>status := FAILED, error := Some ''boom''\<rparr>]\<rparr>"

text \<open>A running job that one connection (callback 1) is already watching.\<close>

definition watched_service :: PipelineService where
  "watched_service =
     init_service\<lparr>jobs := [''j'' \<mapsto> demo_job\<lparr>status := GENERATING\<rparr>],
                   progress_callbacks := [''j'' \<mapsto> [on_progress 1]]\<rparr>"

text \<open>
  An engine on which every call succeeds, which hands the requested length back
  unchanged and signals end of sequence in iteration 2 of the loop.
\<close>

definition demo_engine :: engine where
  "demo_engine =
     \<lparr>from_pretrained = Inr (), sanitize_parameters = (\<lambda>cfg ms temp tk. Inr ms),
      preprocess = (\<lambda>ly tg. Inr ()), first_frame = Inr [0],
      generate_frame = (\<lambda>i. if i < 2 then Inr [1] else Inr [9]), audio_eos_id = 5,
      detokenize = (\<lambda>frames. Inr ()), torchaudio_save = (\<lambda>path. Inr ()),
      now_started = 1, now_completed = 2\<rparr>"

text \<open>An observer whose callback raises on every call.\<close>

definition flaky :: "nat \<Rightarrow> callback" where
  "flaky k = \<lparr>cb_id = k, cb_call = (\<lambda>j. Inl ''observer failed'')\<rparr>"

text \<open>
  The service after \<^verbatim>\<open>POST /start\<close> has stored the job and the background task has
  taken the slot for it; two connections watch the job.
\<close>

definition admitted_service :: PipelineService where
  "admitted_service =
     init_service\<lparr>jobs := [''j'' \<mapsto> demo_job], current_job := Some ''j'',
                   progress_callbacks := [''j'' \<mapsto> [flaky 1, on_progress 2]]\<rparr>"

text \<open>The job of that service after the executor has run with \<open>demo_engine\<close>.\<close>

definition demo_final :: GenerationJob where
  "demo_final =
     \<lparr>job_id = ''j'', lyrics = ''la'', tags = ''piano'', temperature = 1, topk = 50,
      cfg_scale = 3 / 2, max_audio_length_ms = 80000, status = COMPLETED, progress = 1,
      current_frame = 2, total_frames = 1000, output_path = Some ''/output/j.mp3'',
      error = None, created_at = 0, started_at = Some 1, completed_at = Some 2\<rparr>"

text \<open>An engine whose model cannot be loaded.\<close>

definition broken_engine :: engine where
  "broken_engine = demo_engine\<lparr>from_pretrained := Inl ''checkpoint not found''\<rparr>"

text \<open>The service after \<^verbatim>\<open>POST /start\<close> has stored the job; the slot is still free.\<close>

definition queued_service :: PipelineService where
  "queued_service = init_service\<lparr>jobs := [''j'' \<mapsto> demo_job]\<rparr>"



text \<open>
  An engine that produces 500 frames in the loop (iterations 0 to 499) and signals end
  of sequence in the next one.
\<close>

definition eos_engine :: engine where
  "eos_engine =
     demo_engine\<lparr>generate_frame := (\<lambda>i. if i < 500 then Inr [1] else Inr [9])\<rparr>"



text \<open>
  Two creation requests that are handled one after the other before the background task
  of either has run: the jobs they make, the answer each of them gets, and the service
  after the first and after both.
\<close>

definition job_a :: GenerationJob where
  "job_a = fst (create_job ''a'' 1 ''la'' ''piano'' 1 50 (3 / 2) 80000 init_service)"

definition job_b :: GenerationJob where
  "job_b = fst (create_job ''b'' 2 ''la'' ''piano'' 1 50 (3 / 2) 80000 init_service)"

definition accepted :: "job_id \<Rightarrow> GenerationResponse" where
  "accepted jid =
     \<lparr>rs_job_id = jid, rs_status = ''queued'',
      rs_message = ''Generation started. Use /progress/{job_id} to track progress.''\<rparr>"

definition first_stored :: PipelineService where
  "first_stored = init_service\<lparr>jobs := [''a'' \<mapsto> job_a]\<rparr>"

definition both_stored :: PipelineService where
  "both_stored = init_service\<lparr>jobs := [''a'' \<mapsto> job_a, ''b'' \<mapsto> job_b]\<rparr>"

section \<open>The executor, step by step\<close>

lemma invoke_all_map:
  "invoke_all cbs job = map (\<lambda>cb. Invoked (cb_id cb) job (isl (cb_call cb job))) cbs"
  by (induction cbs) (auto split: sum.splits)

lemma update_job_fields [simp]:
  "pipeline_loaded (update_job jid f s) = pipeline_loaded s"
  "current_job (update_job jid f s) = current_job s"
  "progress_callbacks (update_job jid f s) = progress_callbacks s"
  "events (update_job jid f s) = events s"
  "jobs (update_job jid f s) = (jobs s)(jid := map_option f (jobs s jid))"
  by (simp_all add: update_job_def)

lemma notify_progress_fields [simp]:
  "pipeline_loaded (notify_progress jid s) = pipeline_loaded s"
  "current_job (notify_progress jid s) = current_job s"
  "progress_callbacks (notify_progress jid s) = progress_callbacks s"
  "jobs (notify_progress jid s) = jobs s"
  by (simp_all add: notify_progress_def split: option.splits)

lemma notify_progress_events:
  "events (notify_progress jid s) =
     events s @ (case jobs s jid of None \<Rightarrow> []
                 | Some job \<Rightarrow> Publish jid job # deliveries s jid job)"
  by (simp add: notify_progress_def deliveries_def split: option.splits)

lemma deliveries_frame [simp]:
  "deliveries (update_job jid f s) = deliveries s"
  "deliveries (notify_progress jid s) = deliveries s"
  "deliveries (s\<lparr>pipeline_loaded := b\<rparr>) = deliveries s"
  "deliveries (s\<lparr>current_job := c\<rparr>) = deliveries s"
  "deliveries (s\<lparr>events := ev\<rparr>) = deliveries s"
  by (simp_all add: deliveries_def fun_eq_iff)

lemma Released_notin_deliveries [simp]: "Released \<notin> set (deliveries s jid job)"
  by (auto simp: deliveries_def invoke_all_map split: option.splits)

lemma forward_loop_rule:
  assumes "forward_loop en jid n i frames s = (r, s')"
      and "P i s"
      and "\<And>k t tok. i \<le> k \<Longrightarrow> int k < n \<Longrightarrow> generate_frame en k = Inr tok \<Longrightarrow> \<not> is_eos en tok
              \<Longrightarrow> P k t
              \<Longrightarrow> P (Suc k) (notify_progress jid (update_job jid
                        (advance_frame k n) t))"
  shows "\<exists>k\<ge>i. P k s' \<and> int k \<le> max n (int i) \<and>
           (\<forall>x. i \<le> x \<and> x < k \<longrightarrow> (\<exists>tok. generate_frame en x = Inr tok \<and> \<not> is_eos en tok)) \<and>
           (case r of
              Inl e \<Rightarrow> int k < n \<and> (\<exists>m. generate_frame en k = Inl m \<and> e = EngineError m)
            | Inr fr \<Rightarrow> int k < n \<longrightarrow> (\<exists>tok. generate_frame en k = Inr tok \<and> is_eos en tok))"
  using assms
proof (induction en jid n i frames s rule: forward_loop.induct)
  case (1 en jid n i frames s)
  show ?case
  proof (cases "int i < n")
    case False
    with "1.prems"(1,2) show ?thesis
      by (intro exI[of _ i]) (auto simp: forward_loop.simps[of en jid n i])
  next
    case lt: True
    show ?thesis
    proof (cases "generate_frame en i")
      case (Inl m)
      with lt "1.prems"(1,2) show ?thesis
        by (intro exI[of _ i]) (auto simp: forward_loop.simps[of en jid n i])
    next
      case (Inr tok)
      show ?thesis
      proof (cases "is_eos en tok")
        case True
        with lt Inr "1.prems"(1,2) show ?thesis
          by (intro exI[of _ i]) (auto simp: forward_loop.simps[of en jid n i])
      next
        case False
        let ?t = "notify_progress jid (update_job jid
                        (advance_frame i n) s)"
        have run: "forward_loop en jid n (Suc i) (frames @ [tok]) ?t = (r, s')"
          using "1.prems"(1) lt Inr False by (simp add: forward_loop.simps[of en jid n i])
        have P': "P (Suc i) ?t"
          using "1.prems"(3)[of i tok s] lt Inr False "1.prems"(2) by simp
        have step: "\<And>k t tok. Suc i \<le> k \<Longrightarrow> int k < n \<Longrightarrow> generate_frame en k = Inr tok
              \<Longrightarrow> \<not> is_eos en tok \<Longrightarrow> P k t
              \<Longrightarrow> P (Suc k) (notify_progress jid (update_job jid
                        (advance_frame k n) t))"
          using "1.prems"(3) by simp
        define Q where "Q k \<longleftrightarrow> P k s' \<and>
           (case r of
              Inl e \<Rightarrow> int k < n \<and> (\<exists>m. generate_frame en k = Inl m \<and> e = EngineError m)
            | Inr fr \<Rightarrow> int k < n \<longrightarrow> (\<exists>tok. generate_frame en k = Inr tok \<and> is_eos en tok))" for k
        define G where "G x \<longleftrightarrow> (\<exists>tok. generate_frame en x = Inr tok \<and> \<not> is_eos en tok)" for x
        have "\<exists>k\<ge>Suc i. P k s' \<and> int k \<le> max n (int (Suc i)) \<and>
           (\<forall>x. Suc i \<le> x \<and> x < k \<longrightarrow> (\<exists>tok. generate_frame en x = Inr tok \<and> \<not> is_eos en tok)) \<and>
           (case r of
              Inl e \<Rightarrow> int k < n \<and> (\<exists>m. generate_frame en k = Inl m \<and> e = EngineError m)
            | Inr fr \<Rightarrow> int k < n \<longrightarrow> (\<exists>tok. generate_frame en k = Inr tok \<and> is_eos en tok))"
          by (rule "1.IH"[OF lt Inr False run P' step])
        then have "\<exists>k. Suc i \<le> k \<and> int k \<le> max n (int (Suc i)) \<and>
            (\<forall>x. Suc i \<le> x \<and> x < k \<longrightarrow> G x) \<and> Q k"
          unfolding Q_def G_def by (elim exE conjE, intro exI conjI) assumption+
        then obtain k where k: "Suc i \<le> k" "int k \<le> max n (int (Suc i))"
            "\<forall>x. Suc i \<le> x \<and> x < k \<longrightarrow> G x" "Q k"
          by blast
        have Gi: "G i" unfolding G_def using Inr False by simp
        have "\<forall>x. i \<le> x \<and> x < k \<longrightarrow> G x"
        proof (intro allI impI)
          fix x assume x: "i \<le> x \<and> x < k"
          show "G x"
          proof (cases "x = i")
            case True then show ?thesis using Gi by simp
          next
            case False
            with x have "Suc i \<le> x \<and> x < k" by simp
            with k(3) show ?thesis by blast
          qed
        qed
        moreover have "int k \<le> max n (int i)" using k(2) lt by simp
        moreover have "i \<le> k" using k(1) by simp
        ultimately have "i \<le> k \<and> P k s' \<and> int k \<le> max n (int i) \<and>
           (\<forall>x. i \<le> x \<and> x < k \<longrightarrow> (\<exists>tok. generate_frame en x = Inr tok \<and> \<not> is_eos en tok)) \<and>
           (case r of
              Inl e \<Rightarrow> int k < n \<and> (\<exists>m. generate_frame en k = Inl m \<and> e = EngineError m)
            | Inr fr \<Rightarrow> int k < n \<longrightarrow> (\<exists>tok. generate_frame en k = Inr tok \<and> is_eos en tok))"
          using k(4) unfolding Q_def G_def by simp
        then show ?thesis by (rule exI[of _ k])
      qed
    qed
  qed
qed


lemma generation_body_rule:
  assumes run: "generation_body en job s = (r, s')"
      and P0: "P 0 (update_job (job_id job) set_total_frames s)"
      and frame: "\<And>k t. P k t \<Longrightarrow> int k < body_frames en job
              \<Longrightarrow> P (Suc k) (notify_progress (job_id job)
                     (update_job (job_id job) (advance_frame k (body_frames en job)) t))"
  shows "(\<exists>e. r = Inl e \<and> s' = s) \<or>
         (\<exists>k t. P k t \<and> (\<forall>x<k. int x < body_frames en job) \<and>
            (case r of Inl e \<Rightarrow> s' = t
             | Inr u \<Rightarrow> s' = update_job (job_id job) (complete (now_completed en)) t))"
proof (cases "sanitize_parameters en (cfg_scale job) (max_audio_length_ms job)
                (temperature job) (topk job)")
  case (Inl m)
  with run show ?thesis by (auto simp add: generation_body_def)
next
  case sp: (Inr fwd_ms)
  then have n: "body_frames en job = fwd_ms div 80" by (simp add: body_frames_def)
  show ?thesis
  proof (cases "preprocess en (lyrics job) (tags job)")
    case (Inl m)
    with run sp show ?thesis by (auto simp add: generation_body_def)
  next
    case pp: (Inr mi)
    let ?s1 = "update_job (job_id job) set_total_frames s"
    show ?thesis
    proof (cases "first_frame en")
      case (Inl m)
      with run sp pp have "r = Inl (EngineError m)" "s' = ?s1"
        by (auto simp add: generation_body_def forward_with_progress_def)
      with P0 show ?thesis by (intro disjI2 exI[of _ 0] exI[of _ ?s1]) simp
    next
      case ff: (Inr tok0)
      obtain lr t where loop: "forward_loop en (job_id job) (fwd_ms div 80) 0 [tok0] ?s1 = (lr, t)"
        by (cases "forward_loop en (job_id job) (fwd_ms div 80) 0 [tok0] ?s1")
      have "\<exists>k\<ge>0. P k t \<and> int k \<le> max (fwd_ms div 80) (int 0) \<and>
           (\<forall>x. 0 \<le> x \<and> x < k \<longrightarrow> (\<exists>tok. generate_frame en x = Inr tok \<and> \<not> is_eos en tok)) \<and>
           (case lr of
              Inl e \<Rightarrow> int k < fwd_ms div 80 \<and> (\<exists>m. generate_frame en k = Inl m \<and> e = EngineError m)
            | Inr fr \<Rightarrow> int k < fwd_ms div 80 \<longrightarrow> (\<exists>tok. generate_frame en k = Inr tok \<and> is_eos en tok))"
        by (rule forward_loop_rule[OF loop, where P = P]) (use P0 frame n in simp_all)
      then obtain k where k: "P k t" "int k \<le> max (fwd_ms div 80) 0" by auto
      have lt: "\<forall>x<k. int x < body_frames en job" using k(2) n by auto
      have "case r of Inl e \<Rightarrow> s' = t
             | Inr u \<Rightarrow> s' = update_job (job_id job) (complete (now_completed en)) t"
        using run sp pp ff loop
        by (auto simp add: generation_body_def forward_with_progress_def split: sum.splits)
      with k(1) lt show ?thesis by blast
    qed
  qed
qed

lemma load_pipeline_cases:
  "load_pipeline en s = (r, s') \<Longrightarrow>
     (\<exists>m. r = Inl (EngineError m) \<and> from_pretrained en = Inl m \<and> \<not> pipeline_loaded s \<and> s' = s) \<or>
     (r = Inr () \<and> (s' = s \<or> s' = s\<lparr>pipeline_loaded := True\<rparr>))"
  by (auto simp: load_pipeline_def split: if_splits sum.splits)

lemma generate_with_progress_rule:
  fixes P :: "nat \<Rightarrow> PipelineService \<Rightarrow> bool"
  assumes run: "generate_with_progress en job s0 = (r, s')"
      and s1: "s1 = notify_progress (job_id job)
                      (update_job (job_id job) (begin_loading (now_started en)) s0)"
      and gen: "\<And>s2. s2 = s1 \<or> s2 = s1\<lparr>pipeline_loaded := True\<rparr>
                  \<Longrightarrow> Q (notify_progress (job_id job) (update_job (job_id job) begin_generating s2))"
      and tot: "\<And>t. Q t \<Longrightarrow> P 0 (update_job (job_id job) set_total_frames t)"
      and frame: "\<And>k t. P k t \<Longrightarrow> int k < body_frames en job
              \<Longrightarrow> P (Suc k) (notify_progress (job_id job)
                     (update_job (job_id job) (advance_frame k (body_frames en job)) t))"
  shows "(\<exists>m. r = Inl (EngineError m) \<and> from_pretrained en = Inl m \<and> \<not> pipeline_loaded s0 \<and> s' = s1) \<or>
         (r = Inr () \<and> (\<exists>t e. (Q t \<or> (\<exists>k. P k t \<and> (\<forall>x<k. int x < body_frames en job))) \<and>
              s' = publish_and_release (job_id job)
                     (update_job (job_id job) (fail (str e) (now_completed en)) t))) \<or>
         (r = Inr () \<and> (\<exists>t k. P k t \<and> (\<forall>x<k. int x < body_frames en job) \<and>
              s' = publish_and_release (job_id job)
                     (update_job (job_id job) (complete (now_completed en)) t)))"
proof -
  obtain lr s2 where load: "load_pipeline en s1 = (lr, s2)" by (cases "load_pipeline en s1")
  from load_pipeline_cases[OF load]
  consider (bad) m where "lr = Inl (EngineError m)" "from_pretrained en = Inl m"
                         "\<not> pipeline_loaded s1" "s2 = s1"
    | (ok) "lr = Inr ()" "s2 = s1 \<or> s2 = s1\<lparr>pipeline_loaded := True\<rparr>"
    by blast
  then show ?thesis
  proof cases
    case bad
    with run load s1 show ?thesis
      by (auto simp add: generate_with_progress_def Let_def)
  next
    case ok
    let ?s3 = "notify_progress (job_id job) (update_job (job_id job) begin_generating s2)"
    obtain rb t where body: "generation_body en job ?s3 = (rb, t)"
      by (cases "generation_body en job ?s3")
    have Q3: "Q ?s3" using gen ok(2) by blast
    have r: "r = Inr ()" and s': "s' = publish_and_release (job_id job)
               (case rb of Inl e \<Rightarrow> update_job (job_id job) (fail (str e) (now_completed en)) t
                | Inr v \<Rightarrow> t)"
      using run load ok(1) body s1
      by (auto simp add: generate_with_progress_def Let_def publish_and_release_def
          split: sum.splits)
    from generation_body_rule[of en job _ rb t P, OF body tot[OF Q3] frame]
    consider (early) e where "rb = Inl e" "t = ?s3"
      | (late) k u where "P k u" "\<forall>x<k. int x < body_frames en job"
          "case rb of Inl e \<Rightarrow> t = u
           | Inr v \<Rightarrow> t = update_job (job_id job) (complete (now_completed en)) u"
      by blast
    then show ?thesis
    proof cases
      case early
      with r s' Q3 show ?thesis by auto
    next
      case late
      show ?thesis
      proof (cases rb)
        case (Inl e)
        with late r s' show ?thesis by auto
      next
        case (Inr v)
        with late r s' show ?thesis by auto
      qed
    qed
  qed
qed

lemma publish_and_release_update:
  assumes "jobs t jid = Some j"
  shows "jobs (publish_and_release jid (update_job jid f t)) = (jobs t)(jid \<mapsto> f j)"
    and "events (publish_and_release jid (update_job jid f t)) =
           events t @ Publish jid (f j) # deliveries t jid (f j) @ [Released]"
    and "current_job (publish_and_release jid (update_job jid f t)) = None"
    and "progress_callbacks (publish_and_release jid (update_job jid f t)) = progress_callbacks t"
    and "pipeline_loaded (publish_and_release jid (update_job jid f t)) = pipeline_loaded t"
    and "deliveries (publish_and_release jid (update_job jid f t)) = deliveries t"
  using assms
  by (simp_all add: publish_and_release_def Let_def notify_progress_events deliveries_def fun_eq_iff)

lemma status_updates [simp]:
  "status (begin_loading t j) = LOADING"
  "status (begin_generating j) = GENERATING"
  "status (set_total_frames j) = status j"
  "status (advance_frame k n j) = status j"
  "status (complete t j) = COMPLETED"
  "status (fail m t j) = FAILED"
  by (simp_all add: begin_loading_def begin_generating_def set_total_frames_def
      advance_frame_def complete_def fail_def)

lemma quiet_update [simp]: "quiet ev0 (update_job jid f t) = quiet ev0 t"
  by (simp add: quiet_def)

lemma quiet_loaded [simp]: "quiet ev0 (t\<lparr>pipeline_loaded := b\<rparr>) = quiet ev0 t"
  by (simp add: quiet_def)



lemma forward_loop_stop: "\<not> int i < n \<Longrightarrow> forward_loop en jid n i frames s = (Inr frames, s)"
  by (simp add: forward_loop.simps[of en jid n i])

lemma forward_loop_raise:
  "int i < n \<Longrightarrow> generate_frame en i = Inl m
     \<Longrightarrow> forward_loop en jid n i frames s = (Inl (EngineError m), s)"
  by (simp add: forward_loop.simps[of en jid n i])

lemma forward_loop_eos:
  "int i < n \<Longrightarrow> generate_frame en i = Inr tok \<Longrightarrow> is_eos en tok
     \<Longrightarrow> forward_loop en jid n i frames s = (Inr frames, s)"
  by (simp add: forward_loop.simps[of en jid n i])

lemma forward_loop_step:
  "int i < n \<Longrightarrow> generate_frame en i = Inr tok \<Longrightarrow> \<not> is_eos en tok
     \<Longrightarrow> forward_loop en jid n i frames s =
           forward_loop en jid n (Suc i) (frames @ [tok])
             (notify_progress jid (update_job jid (advance_frame i n) s))"
  by (simp add: forward_loop.simps[of en jid n i])

lemma demo_job_fields [simp]:
  "job_id demo_job = ''j''" "max_audio_length_ms demo_job = 80000"
  "status demo_job = QUEUED" "progress demo_job = 0" "output_path demo_job = None"
  "error demo_job = None" "current_frame demo_job = 0"
  by (simp_all add: demo_job_def create_job_def Let_def)

lemma demo_loop:
  "forward_loop demo_engine ''j'' 1000 0 [[0]] s =
     (Inr [[0], [1], [1]],
      notify_progress ''j'' (update_job ''j'' (advance_frame 1 1000)
        (notify_progress ''j'' (update_job ''j'' (advance_frame 0 1000) s))))"
proof -
  have g0: "generate_frame demo_engine 0 = Inr [1]" and g1: "generate_frame demo_engine (Suc 0) = Inr [1]"
    and g2: "generate_frame demo_engine (Suc (Suc 0)) = Inr [9]"
    and e1: "\<not> is_eos demo_engine [1]" and e9: "is_eos demo_engine [9]"
    by (simp_all add: demo_engine_def is_eos_def)
  show ?thesis
    by (simp add: forward_loop_step[OF _ g0 e1] forward_loop_step[OF _ g1 e1]
        forward_loop_eos[OF _ g2 e9])
qed

lemma demo_run:
  "generate_with_progress demo_engine demo_job admitted_service =
     (Inr (),
      publish_and_release ''j'' (update_job ''j'' (complete 2)
        (notify_progress ''j'' (update_job ''j'' (advance_frame 1 1000)
        (notify_progress ''j'' (update_job ''j'' (advance_frame 0 1000)
        (update_job ''j'' set_total_frames
        (notify_progress ''j'' (update_job ''j'' begin_generating
        ((notify_progress ''j'' (update_job ''j'' (begin_loading 1) admitted_service))\<lparr>pipeline_loaded := True\<rparr>))))))))))"
proof -
  have nl: "\<not> pipeline_loaded admitted_service"
    by (simp add: admitted_service_def init_service_def)
  have en: "from_pretrained demo_engine = Inr ()" "now_started demo_engine = 1"
    "now_completed demo_engine = 2" "first_frame demo_engine = Inr [0]"
    "sanitize_parameters demo_engine c ms t k = Inr ms" "preprocess demo_engine l g = Inr ()"
    "detokenize demo_engine fr = Inr ()" "torchaudio_save demo_engine p = Inr ()"
    for c ms t k l g fr p
    by (simp_all add: demo_engine_def)
  show ?thesis
    by (simp add: generate_with_progress_def Let_def load_pipeline_def nl en
        generation_body_def forward_with_progress_def demo_loop publish_and_release_def)
qed

lemma admitted_job: "jobs admitted_service ''j'' = Some demo_job"
  by (simp add: admitted_service_def)

lemma demo_run_job:
  "jobs (snd (generate_with_progress demo_engine demo_job admitted_service)) ''j''
     = Some demo_final"
proof -
  have "complete 2 (advance_frame 1 1000 (advance_frame 0 1000 (set_total_frames
          (begin_generating (begin_loading 1 demo_job))))) = demo_final"
    by (simp add: complete_def advance_frame_def set_total_frames_def begin_generating_def
        begin_loading_def demo_job_def create_job_def Let_def demo_final_def)
  then show ?thesis
    by (simp add: demo_run publish_and_release_def Let_def admitted_job)
qed

lemma warm_up_failure_run:
  assumes "\<not> pipeline_loaded s" and "from_pretrained en = Inl m"
  shows "generate_with_progress en job s =
           (Inl (EngineError m),
            notify_progress (job_id job) (update_job (job_id job) (begin_loading (now_started en)) s))"
  using assms by (simp add: generate_with_progress_def Let_def load_pipeline_def)

lemma engine_view_update:
  "engine_view s = engine_view t \<Longrightarrow> engine_view (update_job jid f s) = engine_view (update_job jid f t)"
  by (simp add: engine_view_def)

lemma engine_view_notify [simp]: "engine_view (notify_progress jid s) = engine_view s"
  by (simp add: engine_view_def)

lemma engine_view_step:
  "engine_view s = engine_view t \<Longrightarrow>
     engine_view (notify_progress jid (update_job jid f s))
       = engine_view (notify_progress jid (update_job jid f t))"
  unfolding engine_view_def by simp

lemma forward_loop_view:
  "engine_view s = engine_view t \<Longrightarrow>
     fst (forward_loop en jid n i frames s) = fst (forward_loop en jid n i frames t) \<and>
     engine_view (snd (forward_loop en jid n i frames s))
       = engine_view (snd (forward_loop en jid n i frames t))"
proof (induction en jid n i frames s arbitrary: t rule: forward_loop.induct)
  case (1 en jid n i frames s)
  show ?case
  proof (cases "int i < n")
    case False
    then show ?thesis using "1.prems" by (simp add: forward_loop_stop)
  next
    case lt: True
    show ?thesis
    proof (cases "generate_frame en i")
      case (Inl m)
      then show ?thesis using lt "1.prems" by (simp add: forward_loop_raise)
    next
      case (Inr tok)
      show ?thesis
      proof (cases "is_eos en tok")
        case True
        then show ?thesis using lt Inr "1.prems" by (simp add: forward_loop_eos)
      next
        case False
        have v: "engine_view (notify_progress jid (update_job jid (advance_frame i n) s))
                 = engine_view (notify_progress jid (update_job jid (advance_frame i n) t))"
          by (rule engine_view_step[OF "1.prems"])
        have "fst (forward_loop en jid n (Suc i) (frames @ [tok])
                     (notify_progress jid (update_job jid (advance_frame i n) s)))
              = fst (forward_loop en jid n (Suc i) (frames @ [tok])
                     (notify_progress jid (update_job jid (advance_frame i n) t))) \<and>
              engine_view (snd (forward_loop en jid n (Suc i) (frames @ [tok])
                     (notify_progress jid (update_job jid (advance_frame i n) s))))
              = engine_view (snd (forward_loop en jid n (Suc i) (frames @ [tok])
                     (notify_progress jid (update_job jid (advance_frame i n) t))))"
          by (rule "1.IH"[OF lt Inr False v])
        then show ?thesis
          unfolding forward_loop_step[OF lt Inr False, of jid frames s]
                    forward_loop_step[OF lt Inr False, of jid frames t] .
      qed
    qed
  qed
qed

lemma forward_with_progress_view:
  assumes "engine_view s = engine_view t"
  shows "fst (forward_with_progress en jid ms s) = fst (forward_with_progress en jid ms t) \<and>
         engine_view (snd (forward_with_progress en jid ms s))
           = engine_view (snd (forward_with_progress en jid ms t))"
proof (cases "first_frame en")
  case (Inl m)
  then show ?thesis using assms by (simp add: forward_with_progress_def)
next
  case (Inr tok0)
  let ?L = "\<lambda>u. forward_loop en jid (ms div 80) 0 [tok0] u"
  from forward_loop_view[OF assms, of en jid "ms div 80" 0 "[tok0]"]
  have L: "fst (?L s) = fst (?L t)" "engine_view (snd (?L s)) = engine_view (snd (?L t))"
    by simp_all
  have F: "forward_with_progress en jid ms u =
             (case fst (?L u) of Inl e \<Rightarrow> (Inl e, snd (?L u))
              | Inr frames \<Rightarrow> (case detokenize en frames of
                   Inl m \<Rightarrow> (Inl (EngineError m), snd (?L u))
                 | Inr wav \<Rightarrow> (Inr (), snd (?L u))))" for u
    using Inr by (simp add: forward_with_progress_def split: prod.splits sum.splits)
  show ?thesis
    unfolding F using L by (simp split: sum.splits)
qed

lemma generation_body_view:
  assumes "engine_view s = engine_view t"
  shows "fst (generation_body en job s) = fst (generation_body en job t) \<and>
         engine_view (snd (generation_body en job s))
           = engine_view (snd (generation_body en job t))"
proof (cases "sanitize_parameters en (cfg_scale job) (max_audio_length_ms job)
                (temperature job) (topk job)")
  case (Inl m)
  then show ?thesis using assms by (simp add: generation_body_def)
next
  case sp: (Inr ms)
  show ?thesis
  proof (cases "preprocess en (lyrics job) (tags job)")
    case (Inl m)
    then show ?thesis using assms sp by (simp add: generation_body_def)
  next
    case pp: (Inr mi)
    let ?F = "\<lambda>u. forward_with_progress en (job_id job) ms
                     (update_job (job_id job) set_total_frames u)"
    from forward_with_progress_view[OF engine_view_update[OF assms], of en "job_id job" ms
           "job_id job" set_total_frames]
    have L: "fst (?F s) = fst (?F t)" "engine_view (snd (?F s)) = engine_view (snd (?F t))"
      by simp_all
    have B: "generation_body en job u =
             (case fst (?F u) of Inl e \<Rightarrow> (Inl e, snd (?F u))
              | Inr wav \<Rightarrow> (case torchaudio_save en (job_id job @ ''.mp3'') of
                   Inl m \<Rightarrow> (Inl (EngineError m), snd (?F u))
                 | Inr v \<Rightarrow> (Inr (), update_job (job_id job) (complete (now_completed en))
                                        (snd (?F u)))))" for u
      using sp pp by (simp add: generation_body_def split: prod.splits sum.splits)
    show ?thesis
      unfolding B using L engine_view_update[OF L(2)] by (simp split: sum.splits)
  qed
qed

lemma engine_view_fields:
  "engine_view s = engine_view t \<Longrightarrow> engine_view (s\<lparr>pipeline_loaded := b\<rparr>) = engine_view (t\<lparr>pipeline_loaded := b\<rparr>)"
  "engine_view s = engine_view t \<Longrightarrow> engine_view (s\<lparr>current_job := c, events := ev\<rparr>)
      = engine_view (t\<lparr>current_job := c, events := ev'\<rparr>)"
  "engine_view s = engine_view t \<Longrightarrow> pipeline_loaded s = pipeline_loaded t"
  by (simp_all add: engine_view_def)

lemma generate_with_progress_view:
  assumes "engine_view s = engine_view t"
  shows "fst (generate_with_progress en job s) = fst (generate_with_progress en job t) \<and>
         engine_view (snd (generate_with_progress en job s))
           = engine_view (snd (generate_with_progress en job t))"
proof -
  let ?jid = "job_id job"
  let ?s1 = "\<lambda>u. notify_progress ?jid (update_job ?jid (begin_loading (now_started en)) u)"
  have v1: "engine_view (?s1 s) = engine_view (?s1 t)" by (rule engine_view_step[OF assms])
  have pl: "pipeline_loaded s = pipeline_loaded t" by (rule engine_view_fields(3)[OF assms])
  show ?thesis
  proof (cases "\<not> pipeline_loaded s \<and> isl (from_pretrained en)")
    case True
    then obtain m where "from_pretrained en = Inl m" by (cases "from_pretrained en") auto
    with True pl v1 show ?thesis
      by (simp add: generate_with_progress_def Let_def load_pipeline_def)
  next
    case False
    let ?s2 = "\<lambda>u. if pipeline_loaded s then ?s1 u else (?s1 u)\<lparr>pipeline_loaded := True\<rparr>"
    have ld: "load_pipeline en (?s1 u) = (Inr (), ?s2 u)" if "pipeline_loaded u = pipeline_loaded s" for u
      using False that by (cases "from_pretrained en") (auto simp add: load_pipeline_def)
    have v2: "engine_view (?s2 s) = engine_view (?s2 t)"
      using v1 engine_view_fields(1)[OF v1] by simp
    let ?s3 = "\<lambda>u. notify_progress ?jid (update_job ?jid begin_generating (?s2 u))"
    have v3: "engine_view (?s3 s) = engine_view (?s3 t)" by (rule engine_view_step[OF v2])
    let ?B = "\<lambda>u. generation_body en job (?s3 u)"
    from generation_body_view[OF v3, of en job]
    have vb: "fst (?B s) = fst (?B t)" "engine_view (snd (?B s)) = engine_view (snd (?B t))"
      by simp_all
    let ?s4 = "\<lambda>u. case fst (?B u) of
                   Inl e \<Rightarrow> update_job ?jid (fail (str e) (now_completed en)) (snd (?B u))
                 | Inr v \<Rightarrow> snd (?B u)"
    have v4: "engine_view (?s4 s) = engine_view (?s4 t)"
    proof -
      define Bs where "Bs = ?B s"
      define Bt where "Bt = ?B t"
      have f: "fst Bs = fst Bt" and w: "engine_view (snd Bs) = engine_view (snd Bt)"
        using vb by (simp_all add: Bs_def Bt_def)
      have "engine_view (case fst Bs of
                   Inl e \<Rightarrow> update_job ?jid (fail (str e) (now_completed en)) (snd Bs)
                 | Inr v \<Rightarrow> snd Bs)
            = engine_view (case fst Bt of
                   Inl e \<Rightarrow> update_job ?jid (fail (str e) (now_completed en)) (snd Bt)
                 | Inr v \<Rightarrow> snd Bt)"
      proof (cases "fst Bs")
        case (Inl e)
        with f have "fst Bt = Inl e" by simp
        with Inl show ?thesis using engine_view_update[OF w] by simp
      next
        case (Inr v)
        with f have "fst Bt = Inr v" by simp
        with Inr show ?thesis using w by simp
      qed
      then show ?thesis by (simp only: Bs_def Bt_def)
    qed
    have G: "generate_with_progress en job u =
               (Inr (), (notify_progress ?jid (?s4 u))
                  \<lparr>current_job := None,
                   events := events (notify_progress ?jid (?s4 u)) @ [Released]\<rparr>)"
      if "pipeline_loaded u = pipeline_loaded s" for u
      by (simp add: generate_with_progress_def Let_def ld[OF that] split: prod.splits sum.splits)
    have v5: "engine_view (notify_progress ?jid (?s4 s)) = engine_view (notify_progress ?jid (?s4 t))"
      using v4 by simp
    show ?thesis
      unfolding G[OF refl] G[OF pl[symmetric]]
      using engine_view_fields(2)[OF v5] by simp
  qed
qed



lemma log_all_update [simp]: "log_all ok ev0 (update_job jid f t) = log_all ok ev0 t"
  by (simp add: log_all_def)

lemma log_all_loaded [simp]: "log_all ok ev0 (t\<lparr>pipeline_loaded := b\<rparr>) = log_all ok ev0 t"
  by (simp add: log_all_def)



lemma result_updates [simp]:
  "output_path (begin_loading t j) = output_path j" "error (begin_loading t j) = error j"
  "output_path (begin_generating j) = output_path j" "error (begin_generating j) = error j"
  "output_path (set_total_frames j) = output_path j" "error (set_total_frames j) = error j"
  "output_path (advance_frame k n j) = output_path j" "error (advance_frame k n j) = error j"
  "output_path (complete t j) \<noteq> None" "non_empty (output_path (complete t j))"
  "error (complete t j) = error j"
  "output_path (fail m t j) = output_path j" "error (fail m t j) = Some m"
  by (simp_all add: begin_loading_def begin_generating_def set_total_frames_def
      advance_frame_def complete_def fail_def non_empty_def)





lemma published_append [simp]: "published (xs @ ys) = published xs @ published ys"
  by (simp add: published_def)

lemma published_invoke_all: "published (invoke_all cbs j) = []"
  by (induction cbs) (simp_all add: published_def split: sum.splits)

lemma published_Nil [simp]: "published [] = []"
  by (simp add: published_def)

lemma published_deliveries [simp]: "published (deliveries s jid j) = []"
  by (cases "progress_callbacks s jid") (simp_all add: deliveries_def published_invoke_all)

lemma published_simps [simp]:
  "published (Publish jid j # es) = j # published es"
  "published (Released # es) = published es"
  by (simp_all add: published_def)

lemma rising_snoc:
  "rising ps ub \<Longrightarrow> ub \<le> progress j \<Longrightarrow> progress_ok j \<Longrightarrow> progress j \<le> ub'
     \<Longrightarrow> rising (ps @ [j]) ub'"
  by (fastforce simp add: rising_def sorted_append)

lemma published_since_notify:
  assumes "events t = ev0 @ new" and "jobs t jid = Some j"
  shows "events (notify_progress jid t) = ev0 @ (new @ Publish jid j # deliveries t jid j)"
    and "published (new @ Publish jid j # deliveries t jid j) = published new @ [j]"
  using assms by (simp_all add: notify_progress_events)

lemma progress_updates [simp]:
  "progress (begin_loading t j) = progress j"
  "progress (begin_generating j) = progress j"
  "progress (set_total_frames j) = progress j"
  "progress (advance_frame k n j) = (real k + 1) / real_of_int n"
  "progress (complete t j) = 1"
  "progress (fail m t j) = progress j"
  by (simp_all add: begin_loading_def begin_generating_def set_total_frames_def
      advance_frame_def complete_def fail_def)

lemma frame_progress:
  assumes "int k < n"
  shows "(if k = 0 then 0 else real k / real_of_int n) \<le> (real k + 1) / real_of_int n"
    and "(real k + 1) / real_of_int n \<le> 1" and "0 \<le> (real k + 1) / real_of_int n"
    and "(real k + 1) / real_of_int n = real (Suc k) / real_of_int n"
proof -
  from assms have n: "0 < real_of_int n" by simp
  from assms have k: "real k + 1 \<le> real_of_int n" by linarith
  show "(if k = 0 then 0 else real k / real_of_int n) \<le> (real k + 1) / real_of_int n"
    using n by (simp add: divide_right_mono)
  show "(real k + 1) / real_of_int n \<le> 1" using n k by simp
  show "0 \<le> (real k + 1) / real_of_int n" using n by simp
  show "(real k + 1) / real_of_int n = real (Suc k) / real_of_int n" by simp
qed

lemma reached_progress:
  assumes "k = 0 \<or> int k \<le> n"
  shows "0 \<le> (if k = 0 then 0 else real k / real_of_int n)"
    and "(if k = 0 then 0 else real k / real_of_int n) \<le> 1"
proof -
  show "0 \<le> (if k = 0 then 0 else real k / real_of_int n)"
  proof (cases "k = 0")
    case False
    with assms have "0 < real_of_int n" by linarith
    then show ?thesis by simp
  qed simp
  show "(if k = 0 then 0 else real k / real_of_int n) \<le> 1"
  proof (cases "k = 0")
    case False
    with assms have "0 < real_of_int n" "real k \<le> real_of_int n" by linarith+
    then show ?thesis by simp
  qed simp
qed

lemma demo_run_published:
  "map (\<lambda>p. (status p, current_frame p, progress p))
       (published_since (events admitted_service)
          (snd (generate_with_progress demo_engine demo_job admitted_service))) =
     [(LOADING, 0, 0), (GENERATING, 0, 0), (GENERATING, 1, 1 / 1000), (GENERATING, 2, 1 / 500),
      (COMPLETED, 2, 1)]"
proof -
  have ev: "events admitted_service = []"
    by (simp add: admitted_service_def init_service_def)
  show ?thesis
    by (simp add: demo_run publish_and_release_def Let_def notify_progress_events admitted_job
        published_since_def ev begin_loading_def begin_generating_def set_total_frames_def
        advance_frame_def complete_def)
qed

lemma forward_loop_eos_at:
  assumes units: "\<forall>i<k. \<exists>tok. generate_frame en i = Inr tok \<and> \<not> is_eos en tok"
      and eos: "generate_frame en k = Inr tok" "is_eos en tok"
      and lt: "int k < n"
      and P0: "P 0 s"
      and step: "\<And>x t. x < k \<Longrightarrow> P x t
                  \<Longrightarrow> P (Suc x) (notify_progress jid (update_job jid (advance_frame x n) t))"
  shows "\<exists>frames' s'. forward_loop en jid n 0 frames s = (Inr frames', s') \<and> P k s'"
proof -
  obtain lr s' where run: "forward_loop en jid n 0 frames s = (lr, s')"
    by (cases "forward_loop en jid n 0 frames s")
  define P' where "P' x t \<longleftrightarrow> x \<le> k \<and> P x t" for x t
  have P0': "P' 0 s" using P0 by (simp add: P'_def)
  have step': "P' (Suc x) (notify_progress jid (update_job jid (advance_frame x n) t))"
    if "0 \<le> x" "int x < n" "generate_frame en x = Inr tk" "\<not> is_eos en tk" "P' x t" for x t tk
  proof -
    from that(3,4) eos have "x \<noteq> k" by auto
    with that(5) have "x < k" by (simp add: P'_def)
    with that(5) step[of x t] show ?thesis by (simp add: P'_def)
  qed
  have "\<exists>x\<ge>0. P' x s' \<and> int x \<le> max n (int 0) \<and>
           (\<forall>y. 0 \<le> y \<and> y < x \<longrightarrow> (\<exists>tok. generate_frame en y = Inr tok \<and> \<not> is_eos en tok)) \<and>
           (case lr of
              Inl e \<Rightarrow> int x < n \<and> (\<exists>m. generate_frame en x = Inl m \<and> e = EngineError m)
            | Inr fr \<Rightarrow> int x < n \<longrightarrow> (\<exists>tok. generate_frame en x = Inr tok \<and> is_eos en tok))"
    by (rule forward_loop_rule[OF run, where P = P', OF P0' step'])
  then obtain x where x: "P' x s'"
    and ex: "case lr of
              Inl e \<Rightarrow> int x < n \<and> (\<exists>m. generate_frame en x = Inl m \<and> e = EngineError m)
            | Inr fr \<Rightarrow> int x < n \<longrightarrow> (\<exists>tok. generate_frame en x = Inr tok \<and> is_eos en tok)"
    by blast
  from x have xk: "x \<le> k" and Px: "P x s'" by (simp_all add: P'_def)
  have "x = k"
  proof (rule ccontr)
    assume "x \<noteq> k"
    with xk have xlt: "x < k" by simp
    with units obtain tk where tk: "generate_frame en x = Inr tk" "\<not> is_eos en tk" by blast
    from xlt lt have "int x < n" by simp
    with ex tk show False by (cases lr) auto
  qed
  with ex eos obtain fr where "lr = Inr fr" by (cases lr) auto
  with run Px \<open>x = k\<close> show ?thesis by blast
qed

lemma advance_frame_twice [simp]:
  "advance_frame x n (advance_frame y n j) = advance_frame x n j"
  by (simp add: advance_frame_def)



section \<open>Properties of the router\<close>

text \<open>
  Claim C1, evaluated on the code. The slot is free and two creation requests are handled
  one after the other, before the background task of the first has run. The handler
  tests the slot and never takes it, so both requests are accepted, each with the answer
  that its generation has started, and both jobs are stored; the slot is still free.
  Then the background task of the first request takes the slot, and the one of the
  second is refused: with a \<^verbatim>\<open>RuntimeError\<close> inside the background task, not with the 429
  of the handler, and its job stays \<open>QUEUED\<close> in the registry.
\<close>

theorem second_request_accepted_then_refused:
  "route_start_generation demo_request ''a'' 1 init_service
     = (Inr (accepted ''a'', job_a), first_stored) \<and>
   route_start_generation demo_request ''b'' 2 first_stored
     = (Inr (accepted ''b'', job_b), both_stored) \<and>
   current_job both_stored = None \<and>
   acquire_slot job_a both_stored = (Inr (), both_stored\<lparr>current_job := Some ''a''\<rparr>) \<and>
   start_generation demo_engine job_b (both_stored\<lparr>current_job := Some ''a''\<rparr>)
     = (Inl (RuntimeError ''A generation is already in progress''),
        both_stored\<lparr>current_job := Some ''a''\<rparr>) \<and>
   jobs (both_stored\<lparr>current_job := Some ''a''\<rparr>) ''b'' = Some job_b \<and>
   status job_b = QUEUED"
  by (simp add: route_start_generation_def create_job_def Let_def init_service_def
      demo_request_def accepted_def job_a_def job_b_def first_stored_def both_stored_def
      acquire_slot_def start_generation_def)

text \<open>
  Claim C4. A creation request that reaches the handler while the slot \<^verbatim>\<open>_current_job\<close>
  is occupied is answered with \<^verbatim>\<open>HTTPException(429)\<close>, and the service, with its registry
  of jobs, is left exactly as it was: no job is constructed or stored.
\<close>

theorem route_start_generation_occupied:
  "current_job s \<noteq> None \<Longrightarrow>
     route_start_generation request uuid t s =
       (Inl (HTTPException 429
               ''A generation is already in progress. Please wait for it to complete.''), s)
     \<and> jobs (snd (route_start_generation request uuid t s)) = jobs s"
  by (simp add: route_start_generation_def)

theorem route_start_generation_occupied_witness:
  "current_job (init_service\<lparr>current_job := Some ''a''\<rparr>) \<noteq> None \<and>
   route_start_generation demo_request ''b'' 7 (init_service\<lparr>current_job := Some ''a''\<rparr>) =
     (Inl (HTTPException 429
             ''A generation is already in progress. Please wait for it to complete.''),
      init_service\<lparr>current_job := Some ''a''\<rparr>) \<and>
   jobs (snd (route_start_generation demo_request ''b'' 7
                (init_service\<lparr>current_job := Some ''a''\<rparr>))) ''b'' = None"
  using route_start_generation_occupied
          [of "init_service\<lparr>current_job := Some ''a''\<rparr>" demo_request "''b''" 7]
  by (simp add: init_service_def)

text \<open>With a free slot the same request does store a new job, in state \<open>QUEUED\<close>.\<close>

lemma route_start_generation_free:
  "current_job s = None \<Longrightarrow>
     \<exists>resp job. route_start_generation request uuid t s =
                   (Inr (resp, job), s\<lparr>jobs := (jobs s)(uuid \<mapsto> job)\<rparr>)
                 \<and> status job = QUEUED \<and> job_id job = uuid"
  by (simp add: route_start_generation_def create_job_def Let_def)

text \<open>
  Claim C9. A stream opened for an unknown job id fails at once with
  \<^verbatim>\<open>HTTPException(404)\<close>, sends nothing and registers nothing. A stream opened for a job
  that is already \<open>COMPLETED\<close> or \<open>FAILED\<close> sends exactly one event and ends, whatever the
  wait loop would have met. That event is the snapshot of the terminal job: its id, the
  text \<^verbatim>\<open>completed\<close> or \<^verbatim>\<open>failed\<close> of its status, its progress, its frame counts, its
  output path and its error. (A terminal job is not written again, so the status read
  again after the first event is the one of the connection.)
\<close>

theorem stream_progress_unknown_or_terminal:
  "(get_job s jid = None \<longrightarrow>
      stream_progress jid k reread turns s = (Inl (HTTPException 404 ''Job not found''), s)) \<and>
   (\<forall>job. get_job s jid = Some job \<and> terminal (status job) \<longrightarrow>
      fst (stream_progress jid k (status job) turns s) =
        Inr [Data \<lparr>d_job_id = job_id job,
                   d_status = (if status job = COMPLETED then ''completed'' else ''failed''),
                   d_progress = progress job, d_current_frame = current_frame job,
                   d_total_frames = total_frames job, d_output_path = output_path job,
                   d_error = error job\<rparr>])"
  by (auto simp add: stream_progress_def Let_def job_to_dict_def terminal_def)

theorem stream_progress_unknown_or_terminal_witness:
  "get_job done_service ''x'' = None \<and>
   stream_progress ''x'' 1 FAILED [Timeout None] done_service =
     (Inl (HTTPException 404 ''Job not found''), done_service) \<and>
   get_job done_service ''j'' = Some (demo_job\<lparr>status := FAILED, error := Some ''boom''\<rparr>) \<and>
   terminal (status (demo_job\<lparr>status := FAILED, error := Some ''boom''\<rparr>)) \<and>
   fst (stream_progress ''j'' 1 FAILED [Timeout None] done_service) =
     Inr [Data \<lparr>d_job_id = ''j'', d_status = ''failed'', d_progress = 0, d_current_frame = 0,
                d_total_frames = 0, d_output_path = None, d_error = Some ''boom''\<rparr>]"
  using stream_progress_unknown_or_terminal
          [where s = done_service and jid = "''x''" and k = 1 and reread = FAILED
             and turns = "[Timeout None]"]
        stream_progress_unknown_or_terminal
          [where s = done_service and jid = "''j''" and k = 1 and reread = FAILED
             and turns = "[Timeout None]"]
  by (simp add: done_service_def get_job_def init_service_def terminal_def demo_job_def
      create_job_def Let_def)

text \<open>
  Claim C8, as stated: after a connection has ended, the number of observers of the job
  is what it was before the connection, the other observers being untouched. It fails
  when another connection watches the same job: the \<^verbatim>\<open>finally\<close> clause removes every
  callback of the job id, so observer 1 is gone after connection 2 has closed.
\<close>

theorem stream_close_keeps_others_counterexample:
  "\<not> (subscriber_count (snd (stream_progress ''j'' 2 GENERATING [] watched_service)) ''j''
        = subscriber_count watched_service ''j'') \<and>
   progress_callbacks watched_service ''j'' = Some [on_progress 1] \<and>
   progress_callbacks (snd (stream_progress ''j'' 2 GENERATING [] watched_service)) ''j'' = None"
  by (simp add: stream_progress_def watched_service_def init_service_def get_job_def Let_def
      register_progress_callback_def unregister_progress_callbacks_def subscriber_count_def)

text \<open>
  Claim C8, amended. When a connection for a known job ends, by a \<^verbatim>\<open>break\<close>, a
  \<^verbatim>\<open>return\<close> or the client's leaving, every callback registered for that job id is
  unregistered, this connection's and any other's; the callbacks of every other job id
  stay as they were. The subscriber count of the job is 0 afterwards, which is its value
  from before the connection exactly when nobody else was watching the job.
\<close>

theorem stream_close_unregisters_all:
  "get_job s jid = Some job \<Longrightarrow>
     progress_callbacks (snd (stream_progress jid k reread turns s)) jid = None \<and>
     subscriber_count (snd (stream_progress jid k reread turns s)) jid = 0 \<and>
     (\<forall>other. other \<noteq> jid \<longrightarrow>
        progress_callbacks (snd (stream_progress jid k reread turns s)) other
          = progress_callbacks s other) \<and>
     (subscriber_count (snd (stream_progress jid k reread turns s)) jid = subscriber_count s jid
        \<longleftrightarrow> subscriber_count s jid = 0)"
  by (auto simp add: stream_progress_def Let_def register_progress_callback_def
      unregister_progress_callbacks_def subscriber_count_def)

theorem stream_close_unregisters_all_witness:
  "get_job watched_service ''j'' = Some (demo_job\<lparr>status := GENERATING\<rparr>) \<and>
   progress_callbacks (snd (stream_progress ''j'' 2 GENERATING [] watched_service)) ''j'' = None \<and>
   subscriber_count (snd (stream_progress ''j'' 2 GENERATING [] watched_service)) ''j'' = 0 \<and>
   subscriber_count watched_service ''j'' = 1"
  using stream_close_unregisters_all
          [where s = watched_service and jid = "''j''" and job = "demo_job\<lparr>status := GENERATING\<rparr>"
             and k = 2 and reread = GENERATING and turns = "[]"]
  by (simp add: watched_service_def get_job_def init_service_def subscriber_count_def)

section \<open>Properties of the executor\<close>



text \<open>
  Claim C2, evaluated on the code. The model cannot be loaded, the job has been stored
  and its background task takes the free slot. The exception of the warm-up leaves
  \<^verbatim>\<open>_generate_with_progress\<close> and \<^verbatim>\<open>start_generation\<close>: the job stays \<open>LOADING\<close>, its
  \<open>error\<close> stays \<open>None\<close>, the slot is never released, and the next \<^verbatim>\<open>POST /start\<close> is
  answered with 429.
\<close>

theorem warm_up_failure_leaves_job_loading:
  "fst (start_generation broken_engine demo_job queued_service)
     = Inl (EngineError ''checkpoint not found'') \<and>
   map_option status (jobs (snd (start_generation broken_engine demo_job queued_service)) ''j'')
     = Some LOADING \<and>
   map_option error (jobs (snd (start_generation broken_engine demo_job queued_service)) ''j'')
     = Some None \<and>
   current_job (snd (start_generation broken_engine demo_job queued_service)) = Some ''j'' \<and>
   Released \<notin> set (events (snd (start_generation broken_engine demo_job queued_service))) \<and>
   fst (route_start_generation demo_request ''k'' 5
          (snd (start_generation broken_engine demo_job queued_service)))
     = Inl (HTTPException 429
              ''A generation is already in progress. Please wait for it to complete.'')"
proof -
  have nl: "\<not> pipeline_loaded (queued_service\<lparr>current_job := Some (job_id demo_job)\<rparr>)"
    by (simp add: queued_service_def init_service_def)
  have fp: "from_pretrained broken_engine = Inl ''checkpoint not found''"
    by (simp add: broken_engine_def)
  have run: "start_generation broken_engine demo_job queued_service =
          (Inl (EngineError ''checkpoint not found''),
           notify_progress ''j'' (update_job ''j'' (begin_loading (now_started broken_engine))
             (queued_service\<lparr>current_job := Some ''j''\<rparr>)))"
    using warm_up_failure_run[OF nl fp, of demo_job]
    by (simp add: start_generation_def acquire_slot_def queued_service_def init_service_def)
  show ?thesis
    unfolding run
    by (simp add: notify_progress_events queued_service_def init_service_def
        route_start_generation_def deliveries_def begin_loading_def)
qed

text \<open>
  Claim C10. A call of \<^verbatim>\<open>_notify_progress\<close> calls every callback registered for the job
  id, in the order of registration and with the same job, whether or not any of them
  raises; it hands no exception on and changes nothing that the executor reads. The
  outcome of the executor and the jobs it leaves behind are the same for any two
  services that differ only in their callbacks and logs.
\<close>

theorem notification_isolated_per_observer:
  "(jobs s jid = Some job \<and> progress_callbacks s jid = Some cbs \<longrightarrow>
      events (notify_progress jid s) =
        events s @ Publish jid job #
          map (\<lambda>cb. Invoked (cb_id cb) job (isl (cb_call cb job))) cbs) \<and>
   engine_view (notify_progress jid s) = engine_view s \<and>
   progress_callbacks (notify_progress jid s) = progress_callbacks s \<and>
   (engine_view s = engine_view t \<longrightarrow>
      fst (generate_with_progress en j s) = fst (generate_with_progress en j t) \<and>
      engine_view (snd (generate_with_progress en j s))
        = engine_view (snd (generate_with_progress en j t)))"
  using generate_with_progress_view[of s t en j]
  by (simp add: notify_progress_events deliveries_def invoke_all_map)

theorem notification_isolated_per_observer_witness:
  "jobs admitted_service ''j'' = Some demo_job \<and>
   progress_callbacks admitted_service ''j'' = Some [flaky 1, on_progress 2] \<and>
   events (notify_progress ''j'' admitted_service) =
     [Publish ''j'' demo_job, Invoked 1 demo_job True, Invoked 2 demo_job False] \<and>
   engine_view admitted_service = engine_view (admitted_service\<lparr>progress_callbacks := Map.empty\<rparr>) \<and>
   fst (generate_with_progress demo_engine demo_job admitted_service)
     = fst (generate_with_progress demo_engine demo_job
              (admitted_service\<lparr>progress_callbacks := Map.empty\<rparr>)) \<and>
   jobs (snd (generate_with_progress demo_engine demo_job
                (admitted_service\<lparr>progress_callbacks := Map.empty\<rparr>))) ''j'' = Some demo_final"
proof -
  let ?t = "admitted_service\<lparr>progress_callbacks := Map.empty\<rparr>"
  have cbs: "progress_callbacks admitted_service ''j'' = Some [flaky 1, on_progress 2]"
    by (simp add: admitted_service_def)
  have ev: "events admitted_service = []"
    by (simp add: admitted_service_def init_service_def)
  have v: "engine_view admitted_service = engine_view ?t"
    by (simp add: engine_view_def)
  from notification_isolated_per_observer
         [of admitted_service "''j''" demo_job "[flaky 1, on_progress 2]" ?t demo_engine demo_job]
       admitted_job cbs v
  have a: "events (notify_progress ''j'' admitted_service) =
            events admitted_service @ Publish ''j'' demo_job #
              map (\<lambda>cb. Invoked (cb_id cb) demo_job (isl (cb_call cb demo_job)))
                [flaky 1, on_progress 2]"
    and b: "fst (generate_with_progress demo_engine demo_job admitted_service)
             = fst (generate_with_progress demo_engine demo_job ?t)"
    and c: "engine_view (snd (generate_with_progress demo_engine demo_job admitted_service))
             = engine_view (snd (generate_with_progress demo_engine demo_job ?t))"
    by simp_all
  from c have "jobs (snd (generate_with_progress demo_engine demo_job ?t)) ''j''
                = jobs (snd (generate_with_progress demo_engine demo_job admitted_service)) ''j''"
    by (simp add: engine_view_def)
  with demo_run_job have d: "jobs (snd (generate_with_progress demo_engine demo_job ?t)) ''j''
                = Some demo_final" by simp
  from a ev have a': "events (notify_progress ''j'' admitted_service) =
     [Publish ''j'' demo_job, Invoked 1 demo_job True, Invoked 2 demo_job False]"
    by (simp add: flaky_def on_progress_def)
  from admitted_job cbs a' v b d show ?thesis by simp
qed




text \<open>
  Claim C6. Run the executor on a job of the registry whose \<open>progress\<close> is 0, as that of
  every job made by \<^verbatim>\<open>create_job\<close>. Along the states of the job that the run publishes,
  \<open>progress\<close> never decreases, so in particular not during \<open>GENERATING\<close>; it is 0 in
  every state that is queued or loading, 1 in every state that is completed, and lies
  between 0 and 1 throughout. The first state published is the loading one; on a run
  that returns normally the second is the entry into \<open>GENERATING\<close>, still with the
  \<open>progress\<close> of the fresh job, and the last is the terminal state in which the job is
  left. The states are those at the calls of \<^verbatim>\<open>_notify_progress\<close>.
\<close>

theorem progress_monotone_and_normalised:
  assumes reg: "jobs s0 (job_id job) = Some job"
      and fresh: "progress job = 0"
      and run: "generate_with_progress en job s0 = (r, s')"
  shows "sorted (map progress (published_since (events s0) s')) \<and>
         (\<forall>p\<in>set (published_since (events s0) s'). progress_ok p) \<and>
         (\<exists>rest. published_since (events s0) s' = begin_loading (now_started en) job # rest \<and>
            (r = Inr () \<longrightarrow>
               (\<exists>more jf. rest = begin_generating (begin_loading (now_started en) job) # more @ [jf]
                   \<and> jobs s' (job_id job) = Some jf \<and> terminal (status jf))))"
proof -
  let ?jid = "job_id job"
  let ?n = "body_frames en job"
  let ?bl = "begin_loading (now_started en) job"
  let ?bg = "begin_generating ?bl"
  define s1 where "s1 = notify_progress ?jid (update_job ?jid (begin_loading (now_started en)) s0)"
  define Inv where "Inv k t \<longleftrightarrow> (\<exists>new j more. events t = events s0 @ new \<and>
      jobs t ?jid = Some j \<and> status j = GENERATING \<and>
      progress j = (if k = 0 then 0 else real k / real_of_int ?n) \<and> (k = 0 \<or> int k \<le> ?n) \<and>
      rising (published new) (progress j) \<and> published new = ?bl # ?bg # more)" for k and t :: PipelineService
  have okl: "progress_ok ?bl" and okg: "progress_ok ?bg"
    using fresh by (simp_all add: progress_ok_def)
  have j1: "jobs s1 ?jid = Some ?bl" unfolding s1_def using reg by simp
  have e1: "events s1 = events s0 @ (Publish ?jid ?bl # deliveries s0 ?jid ?bl)"
    unfolding s1_def using reg by (simp add: notify_progress_events)
  have gen: "Inv 0 (notify_progress ?jid (update_job ?jid begin_generating s2))"
    if "s2 = s1 \<or> s2 = s1\<lparr>pipeline_loaded := True\<rparr>" for s2
  proof -
    have j2: "jobs s2 ?jid = Some ?bl"
      and e2: "events s2 = events s0 @ (Publish ?jid ?bl # deliveries s0 ?jid ?bl)"
      using that j1 e1 by auto
    let ?u = "update_job ?jid begin_generating s2"
    have ju: "jobs ?u ?jid = Some ?bg" using j2 by simp
    have eu: "events ?u = events s0 @ (Publish ?jid ?bl # deliveries s0 ?jid ?bl)"
      using e2 by simp
    note N = published_since_notify[OF eu ju]
    have r0: "rising (published (Publish ?jid ?bl # deliveries s0 ?jid ?bl)) 0"
      using okl fresh by (simp add: rising_def)
    have "rising (published (Publish ?jid ?bl # deliveries s0 ?jid ?bl) @ [?bg]) (progress ?bg)"
      by (rule rising_snoc[OF r0 _ okg]) (simp_all add: fresh)
    then show ?thesis
      unfolding Inv_def using N ju fresh
      by (intro exI[of _ "(Publish ?jid ?bl # deliveries s0 ?jid ?bl)
                           @ Publish ?jid ?bg # deliveries ?u ?jid ?bg"]
                exI[of _ ?bg] exI[of _ "[]"]) simp
  qed
  have tot: "Inv 0 (update_job ?jid set_total_frames t)" if "Inv 0 t" for t
  proof -
    from that obtain new j more where h: "events t = events s0 @ new" "jobs t ?jid = Some j"
      "status j = GENERATING" "progress j = 0" "rising (published new) (progress j)"
      "published new = ?bl # ?bg # more"
      unfolding Inv_def by auto
    show ?thesis unfolding Inv_def
      using h by (intro exI[of _ new] exI[of _ "set_total_frames j"] exI[of _ more]) simp
  qed
  have frame: "Inv (Suc k) (notify_progress ?jid (update_job ?jid (advance_frame k ?n) t))"
    if "Inv k t" and lt: "int k < ?n" for k t
  proof -
    from that(1) obtain new j more where h: "events t = events s0 @ new" "jobs t ?jid = Some j"
      "status j = GENERATING" "progress j = (if k = 0 then 0 else real k / real_of_int ?n)"
      "rising (published new) (progress j)" "published new = ?bl # ?bg # more"
      unfolding Inv_def by auto
    let ?j' = "advance_frame k ?n j"
    let ?u = "update_job ?jid (advance_frame k ?n) t"
    have ju: "jobs ?u ?jid = Some ?j'" using h(2) by simp
    have eu: "events ?u = events s0 @ new" using h(1) by simp
    note N = published_since_notify[OF eu ju]
    note F = frame_progress[OF lt]
    have ok': "progress_ok ?j'" using h(3) by (simp add: progress_ok_def F(2,3))
    have "rising (published new @ [?j']) (progress ?j')"
      by (rule rising_snoc[OF h(5) _ ok']) (simp_all add: F(1) h(4))
    moreover have "progress ?j' = (if Suc k = 0 then 0 else real (Suc k) / real_of_int ?n)"
      using F(4) by simp
    moreover have "Suc k = 0 \<or> int (Suc k) \<le> ?n" using lt by simp
    ultimately show ?thesis
      unfolding Inv_def using N ju h(3,6)
      by (intro exI[of _ "new @ Publish ?jid ?j' # deliveries ?u ?jid ?j'"]
                exI[of _ ?j'] exI[of _ "more @ [?j']"]) simp
  qed
  have fin: ?thesis
    if t: "Inv k t" and s': "s' = publish_and_release ?jid (update_job ?jid f t)"
      and r: "r = Inr ()"
      and ok: "\<And>j. status j = GENERATING \<Longrightarrow> 0 \<le> progress j \<Longrightarrow> progress j \<le> 1
                 \<Longrightarrow> progress_ok (f j) \<and> progress j \<le> progress (f j) \<and> terminal (status (f j))"
    for k t f
  proof -
    from t obtain new j more where h: "events t = events s0 @ new" "jobs t ?jid = Some j"
      "status j = GENERATING" "progress j = (if k = 0 then 0 else real k / real_of_int ?n)"
      "k = 0 \<or> int k \<le> ?n"
      "rising (published new) (progress j)" "published new = ?bl # ?bg # more"
      unfolding Inv_def by auto
    from reached_progress[OF h(5)] h(4) have b: "0 \<le> progress j" "progress j \<le> 1" by simp_all
    from ok[OF h(3) b] have okf: "progress_ok (f j)" "progress j \<le> progress (f j)"
      "terminal (status (f j))" by simp_all
    have ev: "events s' = events s0 @ (new @ Publish ?jid (f j) # deliveries t ?jid (f j) @ [Released])"
      unfolding s' using publish_and_release_update(2)[OF h(2), of f] h(1) by simp
    have jf: "jobs s' ?jid = Some (f j)"
      unfolding s' using publish_and_release_update(1)[OF h(2), of f] by simp
    have ps: "published_since (events s0) s' = published new @ [f j]"
      using ev by (simp add: published_since_def)
    have "rising (published new @ [f j]) (progress (f j))"
      by (rule rising_snoc[OF h(6) okf(2) okf(1)]) simp
    then show ?thesis
      unfolding ps using h(7) jf okf(3) by (simp add: rising_def)
  qed
  from generate_with_progress_rule[of en job s0 r s' s1 "Inv 0" Inv, OF run s1_def gen tot frame]
  consider (bad) m where "r = Inl (EngineError m)" "s' = s1"
    | (failed) t e k where "r = Inr ()" "Inv k t"
        "s' = publish_and_release ?jid (update_job ?jid (fail (str e) (now_completed en)) t)"
    | (completed) t k where "r = Inr ()" "Inv k t"
        "s' = publish_and_release ?jid (update_job ?jid (complete (now_completed en)) t)"
    by blast
  then show ?thesis
  proof cases
    case bad
    have "published_since (events s0) s' = [?bl]"
      using bad(2) e1 by (simp add: published_since_def)
    with bad(1) okl show ?thesis by simp
  next
    case failed
    show ?thesis
      by (rule fin[OF failed(2,3,1)]) (simp add: progress_ok_def terminal_def)
  next
    case completed
    show ?thesis
      by (rule fin[OF completed(2,3,1)]) (simp add: progress_ok_def terminal_def)
  qed
qed

theorem progress_monotone_and_normalised_witness:
  "jobs admitted_service (job_id demo_job) = Some demo_job \<and> progress demo_job = 0 \<and>
   map (\<lambda>p. (status p, current_frame p, progress p))
       (published_since (events admitted_service)
          (snd (generate_with_progress demo_engine demo_job admitted_service))) =
     [(LOADING, 0, 0), (GENERATING, 0, 0), (GENERATING, 1, 1 / 1000), (GENERATING, 2, 1 / 500),
      (COMPLETED, 2, 1)] \<and>
   sorted (map progress (published_since (events admitted_service)
          (snd (generate_with_progress demo_engine demo_job admitted_service)))) \<and>
   list_all progress_ok (published_since (events admitted_service)
          (snd (generate_with_progress demo_engine demo_job admitted_service)))"
proof -
  let ?run = "generate_with_progress demo_engine demo_job admitted_service"
  have reg: "jobs admitted_service (job_id demo_job) = Some demo_job"
    by (simp add: admitted_job)
  have fr: "progress demo_job = 0" by simp
  have a: "?run = (fst ?run, snd ?run)" by simp
  from progress_monotone_and_normalised [OF reg fr a]
  have "sorted (map progress (published_since (events admitted_service) (snd ?run)))"
    and "list_all progress_ok (published_since (events admitted_service) (snd ?run))"
    by (simp_all add: list_all_iff)
  with reg fr demo_run_published show ?thesis by simp
qed

text \<open>
  Claim C7. Take a job of the registry with \<open>max_audio_length_ms = 80000\<close> and an engine
  that can be loaded, hands the length back unchanged, produces a frame in each of the
  iterations 0 to 499 of the loop and signals end of sequence in iteration 500, and
  whose decoding and saving succeed. Then the executor returns normally and leaves the
  job with \<open>total_frames = 80000 div 80 = 1000\<close>, \<open>current_frame = 500\<close>, status
  \<open>COMPLETED\<close> and \<open>progress = 1\<close>; the state published last before the completion was
  still \<open>GENERATING\<close> with \<open>current_frame = 500\<close> and \<open>progress = 1 / 2\<close>, and the final
  state is that one after the assignments of the completion.
\<close>

theorem early_end_of_sequence_completes:
  assumes reg: "jobs s0 (job_id job) = Some job"
      and ms: "max_audio_length_ms job = 80000"
      and warm: "pipeline_loaded s0 \<or> from_pretrained en = Inr ()"
      and sp: "sanitize_parameters en (cfg_scale job) (max_audio_length_ms job)
                 (temperature job) (topk job) = Inr 80000"
      and pp: "preprocess en (lyrics job) (tags job) = Inr ()"
      and ff: "first_frame en = Inr tok0"
      and units: "\<forall>i<500. \<exists>tok. generate_frame en i = Inr tok \<and> \<not> is_eos en tok"
      and eos: "\<exists>tok. generate_frame en 500 = Inr tok \<and> is_eos en tok"
      and dec: "\<forall>frames. detokenize en frames = Inr ()"
      and save: "torchaudio_save en (job_id job @ ''.mp3'') = Inr ()"
  shows "\<exists>s' jf before. generate_with_progress en job s0 = (Inr (), s') \<and>
           jobs s' (job_id job) = Some jf \<and>
           total_frames jf = 1000 \<and> current_frame jf = 500 \<and>
           status jf = COMPLETED \<and> progress jf = 1 \<and>
           before \<in> set (published_since (events s0) s') \<and>
           status before = GENERATING \<and> current_frame before = 500 \<and> progress before = 1 / 2 \<and>
           jf = complete (now_completed en) before"
proof -
  let ?jid = "job_id job"
  let ?bl = "begin_loading (now_started en) job"
  let ?j1 = "set_total_frames (begin_generating ?bl)"
  define s1 where "s1 = notify_progress ?jid (update_job ?jid (begin_loading (now_started en)) s0)"
  define s2 where "s2 = (if pipeline_loaded s0 then s1 else s1\<lparr>pipeline_loaded := True\<rparr>)"
  define s3 where "s3 = notify_progress ?jid (update_job ?jid begin_generating s2)"
  define s4 where "s4 = update_job ?jid set_total_frames s3"
  define jx where "jx x = (if x = 0 then ?j1 else advance_frame (x - 1) 1000 ?j1)" for x :: nat
  define P where "P x t \<longleftrightarrow> jobs t ?jid = Some (jx x) \<and>
      (\<exists>new. events t = events s0 @ new \<and> (0 < x \<longrightarrow> jx x \<in> set (published new)))"
    for x and t :: PipelineService
  have load: "load_pipeline en s1 = (Inr (), s2)"
    using warm by (auto simp add: load_pipeline_def s1_def s2_def)
  have e1: "\<exists>new. events s1 = events s0 @ new"
    unfolding s1_def by (simp add: notify_progress_events)
  have j2: "jobs s2 ?jid = Some ?bl" unfolding s2_def s1_def using reg by simp
  have e2: "\<exists>new. events s2 = events s0 @ new" unfolding s2_def using e1 by auto
  have j4: "jobs s4 ?jid = Some ?j1" unfolding s4_def s3_def using j2 by simp
  have e4: "\<exists>new. events s4 = events s0 @ new"
    unfolding s4_def s3_def using e2 by (auto simp add: notify_progress_events)
  have P0: "P 0 s4" unfolding P_def jx_def using j4 e4 by simp
  have step: "P (Suc x) (notify_progress ?jid (update_job ?jid (advance_frame x 1000) t))"
    if "x < 500" "P x t" for x t
  proof -
    from that(2) obtain new where h: "jobs t ?jid = Some (jx x)" "events t = events s0 @ new"
      unfolding P_def by blast
    let ?u = "update_job ?jid (advance_frame x 1000) t"
    have a: "advance_frame x 1000 (jx x) = jx (Suc x)" by (simp add: jx_def)
    have ju: "jobs ?u ?jid = Some (jx (Suc x))" using h(1) a by simp
    have eu: "events ?u = events s0 @ new" using h(2) by simp
    note N = published_since_notify[OF eu ju]
    show ?thesis unfolding P_def using N ju
      by (intro conjI exI[of _ "new @ Publish ?jid (jx (Suc x)) # deliveries ?u ?jid (jx (Suc x))"])
         simp_all
  qed
  from eos obtain tok where tok: "generate_frame en 500 = Inr tok" "is_eos en tok" by blast
  from forward_loop_eos_at[where k = 500 and n = 1000 and P = P and jid = ?jid and s = s4
         and frames = "[tok0]", OF units tok _ P0 step]
  obtain frames' t where loop: "forward_loop en ?jid 1000 0 [tok0] s4 = (Inr frames', t)"
    and Pt: "P 500 t" by auto
  have fwd: "forward_with_progress en ?jid 80000 s4 = (Inr (), t)"
    using ff loop dec by (simp add: forward_with_progress_def)
  have body: "generation_body en job s3 = (Inr (), update_job ?jid (complete (now_completed en)) t)"
    using sp pp fwd save by (simp add: generation_body_def s4_def)
  have run: "generate_with_progress en job s0 =
               (Inr (), publish_and_release ?jid (update_job ?jid (complete (now_completed en)) t))"
    using load body
    by (simp add: generate_with_progress_def Let_def s1_def[symmetric] s3_def[symmetric]
        publish_and_release_def)
  from Pt obtain new where h: "jobs t ?jid = Some (jx 500)" "events t = events s0 @ new"
    "jx 500 \<in> set (published new)"
    unfolding P_def by auto
  let ?s' = "publish_and_release ?jid (update_job ?jid (complete (now_completed en)) t)"
  let ?jf = "complete (now_completed en) (jx 500)"
  have jf: "jobs ?s' ?jid = Some ?jf"
    using publish_and_release_update(1)[OF h(1), of "complete (now_completed en)"] by simp
  have ev: "published_since (events s0) ?s' = published new @ [?jf]"
    using publish_and_release_update(2)[OF h(1), of "complete (now_completed en)"] h(2)
    by (simp add: published_since_def)
  have before: "status (jx 500) = GENERATING" "current_frame (jx 500) = 500"
    "progress (jx 500) = 1 / 2"
    by (simp_all add: jx_def advance_frame_def)
  have final: "total_frames ?jf = 1000" "current_frame ?jf = 500" "status ?jf = COMPLETED"
    "progress ?jf = 1"
    using ms
    by (simp_all add: jx_def complete_def advance_frame_def set_total_frames_def
        begin_generating_def begin_loading_def)
  show ?thesis
    using run jf ev h(3) before final
    by (intro exI[of _ ?s'] exI[of _ ?jf] exI[of _ "jx 500"]) simp
qed

theorem early_end_of_sequence_completes_witness:
  "jobs admitted_service (job_id demo_job) = Some demo_job \<and>
   max_audio_length_ms demo_job = 80000 \<and>
   generate_frame eos_engine 499 = Inr [1] \<and> \<not> is_eos eos_engine [1] \<and>
   generate_frame eos_engine 500 = Inr [9] \<and> is_eos eos_engine [9] \<and>
   fst (generate_with_progress eos_engine demo_job admitted_service) = Inr () \<and>
   map_option (\<lambda>j. (total_frames j, current_frame j, status j, progress j))
     (jobs (snd (generate_with_progress eos_engine demo_job admitted_service)) ''j'')
     = Some (1000, 500, COMPLETED, 1)"
proof -
  have reg: "jobs admitted_service (job_id demo_job) = Some demo_job"
    by (simp add: admitted_job)
  have ms: "max_audio_length_ms demo_job = 80000" by simp
  have warm: "pipeline_loaded admitted_service \<or> from_pretrained eos_engine = Inr ()"
    by (simp add: eos_engine_def demo_engine_def)
  have sp: "sanitize_parameters eos_engine (cfg_scale demo_job) (max_audio_length_ms demo_job)
              (temperature demo_job) (topk demo_job) = Inr 80000"
    by (simp add: eos_engine_def demo_engine_def)
  have pp: "preprocess eos_engine (lyrics demo_job) (tags demo_job) = Inr ()"
    by (simp add: eos_engine_def demo_engine_def)
  have ff: "first_frame eos_engine = Inr [0]"
    by (simp add: eos_engine_def demo_engine_def)
  have g: "generate_frame eos_engine 499 = Inr [1]" "\<not> is_eos eos_engine [1]"
    "generate_frame eos_engine 500 = Inr [9]" "is_eos eos_engine [9]"
    by (simp_all add: eos_engine_def demo_engine_def is_eos_def)
  have units: "\<forall>i<500. \<exists>tok. generate_frame eos_engine i = Inr tok \<and> \<not> is_eos eos_engine tok"
    by (simp add: eos_engine_def demo_engine_def is_eos_def)
  have eos: "\<exists>tok. generate_frame eos_engine 500 = Inr tok \<and> is_eos eos_engine tok"
    using g by simp
  have dec: "\<forall>frames. detokenize eos_engine frames = Inr ()"
    by (simp add: eos_engine_def demo_engine_def)
  have save: "torchaudio_save eos_engine (job_id demo_job @ ''.mp3'') = Inr ()"
    by (simp add: eos_engine_def demo_engine_def)
  from early_end_of_sequence_completes [OF reg ms warm sp pp ff units eos dec save]
  obtain s' jf where "generate_with_progress eos_engine demo_job admitted_service = (Inr (), s')"
    "jobs s' (job_id demo_job) = Some jf" "total_frames jf = 1000" "current_frame jf = 500"
    "status jf = COMPLETED" "progress jf = 1"
    by blast
  with reg ms g show ?thesis by simp
qed

end
